theory Spec2Isabelle
  imports Complex_Main "HOL-Library.Char_ord" "HOL-Library.List_Lexorder"
begin

section \<open>Guideline Refresher: a shallow embedding of refresh\_guidelines.py\<close>

text \<open>
  The embedding follows \<^verbatim>\<open>src/skills/guideline-refresher/refresh_guidelines.py\<close>.
  Python strings are modelled as \<^typ>\<open>string\<close> over ASCII: the case predicates and
  case mappings below are those of Python restricted to code points below 128, and
  every other character is uncased. Python integers are \<^typ>\<open>int\<close>; a Python
  float is the rational number it stands for (see the subsection on floating point).
  Dictionaries
  (\<^verbatim>\<open>dict\<close>, \<^verbatim>\<open>Counter\<close>, \<^verbatim>\<open>defaultdict\<close>) keep insertion
  order, which the renderers iterate over, so they are association lists whose keys
  are pairwise distinct. Exceptions are values of type \<open>error\<close>. Progress output
  (\<^verbatim>\<open>print\<close>) is not modelled.
\<close>

datatype error = RecursionError | IndexError | ZeroDivisionError | KeyError string | SystemExit int

subsection \<open>Python string operations\<close>

definition is_upper_c :: "char \<Rightarrow> bool" where
  "is_upper_c c = (65 \<le> (of_char c :: nat) \<and> (of_char c :: nat) \<le> 90)"

definition is_lower_c :: "char \<Rightarrow> bool" where
  "is_lower_c c = (97 \<le> (of_char c :: nat) \<and> (of_char c :: nat) \<le> 122)"

definition is_digit_c :: "char \<Rightarrow> bool" where
  "is_digit_c c = (48 \<le> (of_char c :: nat) \<and> (of_char c :: nat) \<le> 57)"

text \<open>\<^verbatim>\<open>str.isspace\<close> on ASCII: tab to carriage return, the four separators
  0x1c to 0x1f, and the space.\<close>

definition is_space_c :: "char \<Rightarrow> bool" where
  "is_space_c c = ((9 \<le> (of_char c :: nat) \<and> (of_char c :: nat) \<le> 13)
     \<or> (28 \<le> (of_char c :: nat) \<and> (of_char c :: nat) \<le> 32))"

definition lower_c :: "char \<Rightarrow> char" where
  "lower_c c = (if is_upper_c c then char_of ((of_char c :: nat) + 32) else c)"

definition upper_c :: "char \<Rightarrow> char" where
  "upper_c c = (if is_lower_c c then char_of ((of_char c :: nat) - 32) else c)"

text \<open>\<^verbatim>\<open>s.lower()\<close>\<close>

definition py_lower :: "string \<Rightarrow> string" where
  "py_lower s = map lower_c s"

text \<open>\<^verbatim>\<open>s.islower()\<close>: at least one cased character and no upper-case one.\<close>

definition py_islower :: "string \<Rightarrow> bool" where
  "py_islower s = (list_ex is_lower_c s \<and> \<not> list_ex is_upper_c s)"

text \<open>\<^verbatim>\<open>s.startswith(p)\<close>\<close>

fun startswith :: "string \<Rightarrow> string \<Rightarrow> bool" where
  "startswith s [] = True"
| "startswith [] (p # ps) = False"
| "startswith (c # cs) (p # ps) = (c = p \<and> startswith cs ps)"

text \<open>\<^verbatim>\<open>s.endswith(p)\<close>\<close>

definition endswith :: "string \<Rightarrow> string \<Rightarrow> bool" where
  "endswith s p = startswith (rev s) (rev p)"

text \<open>\<^verbatim>\<open>sub in s\<close>: \<open>sub\<close> occurs in \<open>s\<close> as a contiguous substring.\<close>

fun py_in :: "string \<Rightarrow> string \<Rightarrow> bool" where
  "py_in sub [] = (sub = [])"
| "py_in sub (c # cs) = (startswith (c # cs) sub \<or> py_in sub cs)"

text \<open>\<^verbatim>\<open>any(kw in text for kw in keywords)\<close>\<close>

definition any_in :: "string list \<Rightarrow> string \<Rightarrow> bool" where
  "any_in keywords text = list_ex (\<lambda>kw. py_in kw text) keywords"

text \<open>\<^verbatim>\<open>s.split(sep)\<close> for a one-character separator: never empty.\<close>

fun split_on :: "char \<Rightarrow> string \<Rightarrow> string list" where
  "split_on sep [] = [[]]"
| "split_on sep (c # cs) =
     (if c = sep then [] # split_on sep cs
      else (case split_on sep cs of [] \<Rightarrow> [[c]] | w # ws \<Rightarrow> (c # w) # ws))"

text \<open>\<^verbatim>\<open>s.strip()\<close>\<close>

definition py_strip :: "string \<Rightarrow> string" where
  "py_strip s = rev (dropWhile is_space_c (rev (dropWhile is_space_c s)))"

text \<open>\<^verbatim>\<open>s.replace(old, new)\<close> for a non-empty \<open>old\<close> (every call of the source
  passes a non-empty literal): leftmost non-overlapping occurrences.\<close>

function py_replace :: "string \<Rightarrow> string \<Rightarrow> string \<Rightarrow> string" where
  "py_replace old new [] = []"
| "py_replace old new (c # cs) =
     (if old \<noteq> [] \<and> startswith (c # cs) old
      then new @ py_replace old new (drop (length old) (c # cs))
      else c # py_replace old new cs)"
  by pat_completeness auto
termination
  by (relation "measure (\<lambda>(old, new, s). length s)") (auto simp: neq_Nil_conv)

text \<open>\<^verbatim>\<open>s.title()\<close>: a cased character is upper-cased when the previous character
  is not cased, and lower-cased otherwise.\<close>

fun title_from :: "bool \<Rightarrow> string \<Rightarrow> string" where
  "title_from previous_is_cased [] = []"
| "title_from previous_is_cased (c # cs) =
     (if is_lower_c c then (if previous_is_cased then c else upper_c c) # title_from True cs
      else if is_upper_c c then (if previous_is_cased then lower_c c else c) # title_from True cs
      else c # title_from False cs)"

definition py_title :: "string \<Rightarrow> string" where
  "py_title s = title_from False s"

text \<open>\<^verbatim>\<open>str(n)\<close> for an integer.\<close>

definition digit_char :: "nat \<Rightarrow> char" where
  "digit_char d = char_of (48 + d)"

fun str_nat :: "nat \<Rightarrow> string" where
  "str_nat n = (if n < 10 then [digit_char n] else str_nat (n div 10) @ [digit_char (n mod 10)])"

declare str_nat.simps [simp del]

definition str_int :: "int \<Rightarrow> string" where
  "str_int i = (if i < 0 then CHR ''-'' # str_nat (nat (- i)) else str_nat (nat i))"

text \<open>\<^verbatim>\<open>int(s)\<close> on a non-empty run of ASCII digits.\<close>

definition int_of_digits :: "string \<Rightarrow> int" where
  "int_of_digits ds = fold (\<lambda>c acc. 10 * acc + (int (of_char c) - 48)) ds 0"

text \<open>\<^verbatim>\<open>repr(s)\<close> of an ASCII string: double quotes when the text holds a single
  quote and no double quote, single quotes otherwise; the quote character, the
  backslash and the control characters are escaped.\<close>

definition hex_digit :: "nat \<Rightarrow> char" where
  "hex_digit d = (if d < 10 then char_of (48 + d) else char_of (87 + d))"

definition repr_char :: "char \<Rightarrow> char \<Rightarrow> string" where
  "repr_char quote c =
     (if c = quote \<or> c = CHR 0x5C then [CHR 0x5C, c]
      else if c = CHR 0x09 then [CHR 0x5C, CHR ''t'']
      else if c = CHR 0x0A then [CHR 0x5C, CHR ''n'']
      else if c = CHR 0x0D then [CHR 0x5C, CHR ''r'']
      else if (of_char c :: nat) < 32 \<or> (of_char c :: nat) = 127
      then [CHR 0x5C, CHR ''x'', hex_digit ((of_char c :: nat) div 16),
            hex_digit ((of_char c :: nat) mod 16)]
      else [c])"

definition py_repr :: "string \<Rightarrow> string" where
  "py_repr s =
     (let quote = (if CHR 0x27 \<in> set s \<and> CHR 0x22 \<notin> set s then CHR 0x22 else CHR 0x27)
      in quote # concat (map (repr_char quote) s) @ [quote])"

text \<open>\<^verbatim>\<open>sep.join(xs)\<close>\<close>

fun py_join :: "string \<Rightarrow> string list \<Rightarrow> string" where
  "py_join sep [] = []"
| "py_join sep [x] = x"
| "py_join sep (x # y # ys) = x @ sep @ py_join sep (y # ys)"

subsection \<open>Dictionaries and counters\<close>

type_synonym 'v dict = "(string \<times> 'v) list"

text \<open>\<^verbatim>\<open>d.get(k, dflt)\<close>; for a \<^verbatim>\<open>Counter\<close> also \<^verbatim>\<open>d[k]\<close> with default 0.\<close>

definition dict_get :: "'v dict \<Rightarrow> string \<Rightarrow> 'v \<Rightarrow> 'v" where
  "dict_get d k dflt = (case map_of d k of None \<Rightarrow> dflt | Some v \<Rightarrow> v)"

text \<open>\<^verbatim>\<open>d[k] = v\<close>: an existing key keeps its place, a new key goes last.\<close>

fun dict_set :: "'v dict \<Rightarrow> string \<Rightarrow> 'v \<Rightarrow> 'v dict" where
  "dict_set [] k v = [(k, v)]"
| "dict_set ((k', v') # d) k v = (if k' = k then (k, v) # d else (k', v') # dict_set d k v)"

text \<open>\<^verbatim>\<open>counter[k] += 1\<close>\<close>

definition counter_inc :: "int dict \<Rightarrow> string \<Rightarrow> int dict" where
  "counter_inc d k = dict_set d k (dict_get d k 0 + 1)"

text \<open>\<^verbatim>\<open>sorted(items, key=lambda x: x[1], reverse=True)\<close>: a stable sort, largest
  count first, ties in iteration order.\<close>

definition sorted_by_count_desc :: "int dict \<Rightarrow> int dict" where
  "sorted_by_count_desc d = sort_key (\<lambda>kv. - snd kv) d"

text \<open>\<^verbatim>\<open>counter.most_common(n)\<close>\<close>

definition most_common :: "nat \<Rightarrow> int dict \<Rightarrow> int dict" where
  "most_common n d = take n (sorted_by_count_desc d)"

text \<open>\<^verbatim>\<open>max(d.items(), key=lambda x: x[1])\<close> on a non-empty dictionary: the first
  item with the largest count.\<close>

fun max_item :: "string \<times> int \<Rightarrow> int dict \<Rightarrow> string \<times> int" where
  "max_item best [] = best"
| "max_item best (kv # d) = max_item (if snd best < snd kv then kv else best) d"

subsection \<open>Data model\<close>

text \<open>One depth preset of the configuration: \<^verbatim>\<open>pr_limit\<close>, \<^verbatim>\<open>commit_days\<close>,
  \<^verbatim>\<open>min_pattern_frequency\<close>.\<close>

type_synonym preset = "int dict"

text \<open>The parts of the configuration the program reads: the presets under
  \<^verbatim>\<open>analysis_depth\<close> and \<^verbatim>\<open>output_format.get('backup_previous')\<close> (absent is
  \<open>None\<close>). The two path templates of \<^verbatim>\<open>output_format\<close> are never read.\<close>

record config_dict =
  analysis_depth :: "preset dict"
  backup_previous :: "bool option"

definition default_config :: config_dict where
  "default_config = \<lparr>
     analysis_depth =
       [(''quick'', [(''pr_limit'', 20), (''commit_days'', 30), (''min_pattern_frequency'', 3)]),
        (''standard'', [(''pr_limit'', 50), (''commit_days'', 90), (''min_pattern_frequency'', 5)]),
        (''deep'', [(''pr_limit'', 100), (''commit_days'', 180), (''min_pattern_frequency'', 3)])],
     backup_previous = Some True \<rparr>"

text \<open>\<^verbatim>\<open>self.findings\<close>, a \<^verbatim>\<open>defaultdict(list)\<close> with a fixed vocabulary of keys:
  each key is a field, \<open>None\<close> while the key is absent. A refactor commit
  \<^verbatim>\<open>{'message': m, 'type': 'refactor'}\<close> is its message. The keys
  \<^verbatim>\<open>'<theme>_feedback'\<close> are the dictionary \<open>feedback\<close>, in insertion order.\<close>

record findings_dict =
  refactor_commits :: "string list option"
  review_themes :: "int dict option"
  file_types :: "int dict option"
  naming_conventions :: "int dict option"
  feedback :: "string list dict"

text \<open>An instance of \<^verbatim>\<open>GuidelineRefresher\<close>; a path is the list of its components.\<close>

record guideline_refresher =
  area :: string
  repo_root :: "string list"
  config :: config_dict
  findings :: findings_dict
  metrics :: "int dict"

text \<open>\<^verbatim>\<open>__init__\<close>, with the repository root and the configuration already resolved.\<close>

definition init_refresher :: "string \<Rightarrow> string list \<Rightarrow> config_dict \<Rightarrow> guideline_refresher" where
  "init_refresher a rt cfg = \<lparr>
     area = a, repo_root = rt, config = cfg,
     findings = \<lparr> refactor_commits = None, review_themes = None, file_types = None,
                  naming_conventions = None, feedback = [] \<rparr>,
     metrics = [] \<rparr>"

text \<open>A merged pull request as \<^verbatim>\<open>gh pr list --json\<close> reports it: the review
  bodies (\<^verbatim>\<open>review.get('body', '')\<close>) and the touched paths
  (\<^verbatim>\<open>f.get('path', '')\<close>).\<close>

record pull_request =
  pr_title :: string
  pr_body :: "string option"
  pr_reviews :: "string list"
  pr_files :: "string list"

text \<open>What the query for merged pull requests gives: the command fails
  (\<^verbatim>\<open>CalledProcessError\<close>), its output does not parse (\<^verbatim>\<open>JSONDecodeError\<close>), or
  a list of pull requests.\<close>

datatype gh_result = GhFailed | GhBadJson | GhPRs "pull_request list"

text \<open>One entry of \<^verbatim>\<open>area_path.rglob('*')\<close>: \<^verbatim>\<open>file_path.parts\<close> and
  \<^verbatim>\<open>file_path.is_file()\<close>.\<close>

record fs_entry =
  parts :: "string list"
  is_file :: bool

subsection \<open>pathlib\<close>

definition path_name :: "string list \<Rightarrow> string" where
  "path_name ps = (if ps = [] then [] else last ps)"

text \<open>\<^verbatim>\<open>name.rfind(c)\<close>\<close>

definition rfind :: "char \<Rightarrow> string \<Rightarrow> int" where
  "rfind c s =
     (if c \<in> set s then int (length s) - 1 - int (length (takeWhile (\<lambda>x. x \<noteq> c) (rev s)))
      else - 1)"

text \<open>\<^verbatim>\<open>PurePath.suffix\<close> and \<^verbatim>\<open>PurePath.stem\<close> (Python 3.8 to 3.13): the last dot
  splits the name unless it is the first or the last character.\<close>

definition path_suffix :: "string \<Rightarrow> string" where
  "path_suffix name =
     (let i = rfind CHR ''.'' name
      in if 0 < i \<and> i < int (length name) - 1 then drop (nat i) name else [])"

definition path_stem :: "string \<Rightarrow> string" where
  "path_stem name =
     (let i = rfind CHR ''.'' name
      in if 0 < i \<and> i < int (length name) - 1 then take (nat i) name else name)"

subsection \<open>analyze\_git\_history\<close>

definition refactor_keywords :: "string list" where
  "refactor_keywords = [''refactor'', ''improve'', ''update'', ''migrate'', ''modernize'']"

definition tech_keywords :: "string list dict" where
  "tech_keywords =
     [(''typescript'', [''typescript'', ''ts'', ''.tsx'']),
      (''react'', [''react'', ''jsx'', ''hook'', ''component'']),
      (''vue'', [''vue'', ''composition'', ''vue3'']),
      (''testing'', [''test'', ''spec'', ''jest'', ''vitest'', ''cypress'']),
      (''async'', [''async'', ''await'', ''promise'']),
      (''performance'', [''performance'', ''optimize'', ''lazy'', ''memo''])]"

text \<open>\<^verbatim>\<open>commit.split(' ', 1)[1] if ' ' in commit else commit\<close>\<close>

definition commit_message :: "string \<Rightarrow> string" where
  "commit_message commit =
     (if CHR '' '' \<in> set commit then tl (dropWhile (\<lambda>c. c \<noteq> CHR '' '') commit) else commit)"

text \<open>One round of \<^verbatim>\<open>for tech, keywords in tech_keywords.items()\<close>.\<close>

definition tech_step :: "string \<Rightarrow> string \<times> string list \<Rightarrow> int dict \<Rightarrow> int dict" where
  "tech_step message_lower tk m =
     (if any_in (snd tk) message_lower then counter_inc m (''tech_'' @ fst tk) else m)"

text \<open>The body of \<^verbatim>\<open>for commit in commits\<close>.\<close>

definition commit_step :: "string \<Rightarrow> guideline_refresher \<Rightarrow> guideline_refresher" where
  "commit_step commit st =
     (let message = commit_message commit;
          message_lower = py_lower message;
          st1 = (if any_in refactor_keywords message_lower
                 then st\<lparr>findings := (findings st)\<lparr>refactor_commits :=
                        Some ((case refactor_commits (findings st) of None \<Rightarrow> [] | Some ms \<Rightarrow> ms)
                              @ [message])\<rparr>\<rparr>
                 else st)
      in st1\<lparr>metrics := fold (tech_step message_lower) tech_keywords (metrics st1)\<rparr>)"

text \<open>\<^verbatim>\<open>[line for line in result.stdout.strip().split('\n') if line]\<close>\<close>

definition commit_lines :: "string \<Rightarrow> string list" where
  "commit_lines stdout = filter (\<lambda>line. line \<noteq> []) (split_on CHR 0x0A (py_strip stdout))"

text \<open>The argument is the output of \<^verbatim>\<open>git log\<close>, or \<open>None\<close> when the command
  fails with \<^verbatim>\<open>CalledProcessError\<close>.\<close>

definition analyze_git_history :: "string option \<Rightarrow> guideline_refresher \<Rightarrow> guideline_refresher" where
  "analyze_git_history git_log st =
     (case git_log of
        None \<Rightarrow> st\<lparr>metrics := dict_set (metrics st) ''total_commits'' 0\<rparr>
      | Some stdout \<Rightarrow>
          (let commits = commit_lines stdout;
               st1 = st\<lparr>metrics := dict_set (metrics st) ''total_commits'' (int (length commits))\<rparr>
           in fold commit_step commits st1))"

subsection \<open>analyze\_pr\_reviews\<close>

definition theme_patterns :: "string list dict" where
  "theme_patterns =
     [(''code_organization'', [''structure'', ''organize'', ''directory'', ''folder'', ''separate'', ''split'']),
      (''type_safety'', [''type'', ''typescript'', ''interface'', ''any'', ''unknown'']),
      (''testing'', [''test'', ''coverage'', ''jest'', ''spec'', ''unit test'', ''integration test'']),
      (''performance'', [''performance'', ''optimize'', ''slow'', ''cache'', ''memo'', ''lazy'']),
      (''error_handling'', [''error'', ''exception'', ''catch'', ''try'', ''throw'']),
      (''naming'', [''naming'', ''rename'', ''name is'', ''called'', ''variable name'']),
      (''documentation'', [''document'', ''comment'', ''readme'', ''docs'', ''jsdoc'']),
      (''accessibility'', [''accessibility'', ''a11y'', ''aria'', ''screen reader''])]"

text \<open>One round of \<^verbatim>\<open>for theme, patterns in theme_patterns.items()\<close>. The state is
  the local counter \<^verbatim>\<open>review_themes\<close> and the feedback entries of
  \<^verbatim>\<open>self.findings\<close>; reading \<^verbatim>\<open>self.findings[key]\<close> creates a missing key.\<close>

definition theme_step ::
  "string \<Rightarrow> string \<Rightarrow> string \<times> string list \<Rightarrow> int dict \<times> string list dict
     \<Rightarrow> int dict \<times> string list dict" where
  "theme_step body body_lower tp acc =
     (if any_in (snd tp) body_lower
      then (counter_inc (fst acc) (fst tp),
            (let key = fst tp @ ''_feedback'';
                 samples = dict_get (snd acc) key []
             in if length samples < 5 then dict_set (snd acc) key (samples @ [take 300 body])
                else dict_set (snd acc) key samples))
      else acc)"

text \<open>The body of \<^verbatim>\<open>for review in pr.get('reviews', [])\<close>.\<close>

definition review_step ::
  "string \<Rightarrow> int dict \<times> string list dict \<Rightarrow> int dict \<times> string list dict" where
  "review_step body acc =
     (if body = [] then acc else fold (theme_step body (py_lower body)) theme_patterns acc)"

text \<open>The body of \<^verbatim>\<open>for pr in relevant_prs\<close>; \<^verbatim>\<open>combined_text\<close> is computed
  there and never used.\<close>

definition pr_step ::
  "pull_request \<Rightarrow> int dict \<times> string list dict \<Rightarrow> int dict \<times> string list dict" where
  "pr_step pr acc = fold review_step (pr_reviews pr) acc"

text \<open>\<^verbatim>\<open>any(self.area in f.get('path', '') for f in files)\<close>\<close>

definition touches_area :: "string \<Rightarrow> pull_request \<Rightarrow> bool" where
  "touches_area a pr = list_ex (\<lambda>path. py_in a path) (pr_files pr)"

text \<open>The first argument says whether \<^verbatim>\<open>gh --version\<close> ran; the second is what the
  query gives when it is made.\<close>

definition analyze_pr_reviews :: "bool \<Rightarrow> gh_result \<Rightarrow> guideline_refresher \<Rightarrow> guideline_refresher" where
  "analyze_pr_reviews gh_available res st =
     (if \<not> gh_available then st
      else (case res of
          GhFailed \<Rightarrow> st
        | GhBadJson \<Rightarrow> st
        | GhPRs prs \<Rightarrow>
            (let relevant_prs = filter (touches_area (area st)) prs;
                 st1 = st\<lparr>metrics := dict_set (metrics st) ''relevant_prs'' (int (length relevant_prs))\<rparr>;
                 acc = fold pr_step relevant_prs ([], feedback (findings st1))
             in st1\<lparr>findings := (findings st1)\<lparr>feedback := snd acc,
                      review_themes := Some (most_common 10 (fst acc))\<rparr>\<rparr>)))"

subsection \<open>analyze\_file\_patterns\<close>

text \<open>\<^verbatim>\<open>any(part.startswith('.') for part in file_path.parts)\<close>\<close>

definition is_hidden :: "fs_entry \<Rightarrow> bool" where
  "is_hidden e = list_ex (\<lambda>part. startswith part ''.'') (parts e)"

text \<open>The body of the first loop over \<^verbatim>\<open>area_path.rglob('*')\<close>; the state is
  \<^verbatim>\<open>(file_types, total_files)\<close>.\<close>

definition file_step :: "fs_entry \<Rightarrow> int dict \<times> int \<Rightarrow> int dict \<times> int" where
  "file_step e acc =
     (if is_hidden e then acc
      else if is_file e
      then (let suffix = path_suffix (path_name (parts e))
            in (if suffix \<noteq> [] then counter_inc (fst acc) suffix else fst acc, snd acc + 1))
      else acc)"

definition code_extensions :: "string list" where
  "code_extensions = [''.ts'', ''.tsx'', ''.js'', ''.jsx'', ''.py'', ''.java'', ''.go'', ''.rs'']"

text \<open>The \<^verbatim>\<open>if\<close>/\<^verbatim>\<open>elif\<close> chain that picks the naming bucket of a base name;
  \<^verbatim>\<open>name[0]\<close> raises \<^verbatim>\<open>IndexError\<close> on the empty name.\<close>

definition naming_bucket :: "string \<Rightarrow> error + string" where
  "naming_bucket name =
     (case name of
        [] \<Rightarrow> Inl IndexError
      | c # _ \<Rightarrow>
          Inr (if is_upper_c c \<and> CHR ''_'' \<notin> set name \<and> CHR ''-'' \<notin> set name then ''PascalCase''
               else if CHR ''_'' \<in> set name \<and> py_islower name then ''snake_case''
               else if CHR ''-'' \<in> set name \<and> py_islower name then ''kebab-case''
               else if is_lower_c c \<and> CHR ''_'' \<notin> set name \<and> CHR ''-'' \<notin> set name then ''camelCase''
               else ''mixed''))"

text \<open>\<^verbatim>\<open>name.lower() in ['index', '__init__']\<close>\<close>

definition is_index_name :: "string \<Rightarrow> bool" where
  "is_index_name name = (py_lower name \<in> set [''index'', ''__init__''])"

text \<open>The body of the second loop over \<^verbatim>\<open>area_path.rglob('*')\<close>; the state is
  \<^verbatim>\<open>naming_patterns\<close>.\<close>

definition naming_step :: "fs_entry \<Rightarrow> int dict \<Rightarrow> error + int dict" where
  "naming_step e naming_patterns =
     (if path_suffix (path_name (parts e)) \<in> set code_extensions \<and> is_file e
      then (let name = path_stem (path_name (parts e))
            in if is_index_name name then Inr naming_patterns
               else (case naming_bucket name of
                       Inl err \<Rightarrow> Inl err
                     | Inr bucket \<Rightarrow> Inr (counter_inc naming_patterns bucket)))
      else Inr naming_patterns)"

fun naming_loop :: "fs_entry list \<Rightarrow> int dict \<Rightarrow> error + int dict" where
  "naming_loop [] naming_patterns = Inr naming_patterns"
| "naming_loop (e # es) naming_patterns =
     (case naming_step e naming_patterns of
        Inl err \<Rightarrow> Inl err
      | Inr naming_patterns' \<Rightarrow> naming_loop es naming_patterns')"

text \<open>The argument is \<open>None\<close> when the area path does not exist, and the entries
  below it otherwise.\<close>

definition analyze_file_patterns ::
  "fs_entry list option \<Rightarrow> guideline_refresher \<Rightarrow> error + guideline_refresher" where
  "analyze_file_patterns tree st =
     (case tree of
        None \<Rightarrow> Inr st
      | Some entries \<Rightarrow>
          (let acc = fold file_step entries ([], 0);
               st1 = st\<lparr>findings := (findings st)\<lparr>file_types := Some (most_common 10 (fst acc))\<rparr>,
                        metrics := dict_set (metrics st) ''total_files'' (snd acc)\<rparr>
           in (case naming_loop entries [] of
                 Inl err \<Rightarrow> Inl err
               | Inr naming_patterns \<Rightarrow>
                   Inr (if naming_patterns \<noteq> []
                        then st1\<lparr>findings := (findings st1)\<lparr>naming_conventions := Some naming_patterns\<rparr>\<rparr>
                        else st1))))"

subsection \<open>The environment of a run\<close>

text \<open>
  What a run reads from outside the program: the output of \<^verbatim>\<open>git log\<close> for a
  look-back window in days (\<open>None\<close> when the command fails), whether the
  \<^verbatim>\<open>gh\<close> tool is there and what its query gives for a limit, the entries below
  the area path (\<open>None\<close> when the path does not exist), and the clock as the
  program formats it at each of its four readings. \<open>recursion_limit\<close> is the number
  of Python frames left when \<^verbatim>\<open>generate_updated_guidelines\<close> is called; the
  interpreter raises \<^verbatim>\<open>RecursionError\<close> when they are used up.
\<close>

record environment =
  git_log :: "int \<Rightarrow> string option"
  gh_available :: bool
  gh_pr_list :: "int \<Rightarrow> gh_result"
  area_tree :: "fs_entry list option"
  now_guidelines :: string
  now_backup :: string
  now_report_name :: string
  now_report_date :: string
  recursion_limit :: nat

text \<open>The regular files of the repository: path components to content.\<close>

type_synonym filesystem = "string list \<rightharpoonup> string"

text \<open>\<^verbatim>\<open>PurePosixPath.__truediv__\<close> with a string: an absolute operand replaces
  the path; empty components and \<^verbatim>\<open>.\<close> are dropped.\<close>

definition posix_parts :: "string \<Rightarrow> string list" where
  "posix_parts s = filter (\<lambda>p. p \<noteq> [] \<and> p \<noteq> ''.'') (split_on CHR ''/'' s)"

definition path_join :: "string list \<Rightarrow> string \<Rightarrow> string list" where
  "path_join p s =
     (if startswith s ''//'' \<and> \<not> startswith s ''///'' then ''//'' # posix_parts s
      else if startswith s ''/'' then ''/'' # posix_parts s
      else p @ posix_parts s)"

text \<open>\<^verbatim>\<open>self.area.replace('/', '_').replace('\\', '_')\<close>\<close>

definition area_filename :: "string \<Rightarrow> string" where
  "area_filename a = py_replace [CHR 0x5C] ''_'' (py_replace ''/'' ''_'' a)"

subsection \<open>load\_current\_guidelines\<close>

definition load_guidelines_path :: "guideline_refresher \<Rightarrow> string list" where
  "load_guidelines_path st =
     path_join (repo_root st) (''.claude/guidelines/'' @ area_filename (area st) @ ''.md'')"

definition load_current_guidelines :: "filesystem \<Rightarrow> guideline_refresher \<Rightarrow> string option" where
  "load_current_guidelines fs st = fs (load_guidelines_path st)"

subsection \<open>generate\_updated\_guidelines\<close>

text \<open>\<^verbatim>\<open>str(self.config['analysis_depth'])\<close>: the whole dictionary of presets.\<close>

definition repr_preset :: "preset \<Rightarrow> string" where
  "repr_preset p =
     ''{'' @ py_join '', '' (map (\<lambda>kv. py_repr (fst kv) @ '': '' @ str_int (snd kv)) p) @ ''}''"

definition repr_analysis_depth :: "preset dict \<Rightarrow> string" where
  "repr_analysis_depth d =
     ''{'' @ py_join '', '' (map (\<lambda>kv. py_repr (fst kv) @ '': '' @ repr_preset (snd kv)) d) @ ''}''"

definition render_header :: "string \<Rightarrow> guideline_refresher \<Rightarrow> string" where
  "render_header now st =
     ''# Coding Guidelines: '' @ area st @ ''\<newline>\<newline>''
     @ ''**Last Updated:** '' @ now @ ''\<newline>''
     @ ''**Auto-generated by:** Guideline Refresher Skill\<newline>''
     @ ''**Analysis Period:** '' @ repr_analysis_depth (analysis_depth (config st))
     @ '' configuration\<newline>\<newline>''
     @ ''## Analysis Summary\<newline>\<newline>''
     @ ''- **Total commits analyzed:** '' @ str_int (dict_get (metrics st) ''total_commits'' 0) @ ''\<newline>''
     @ ''- **Relevant PRs reviewed:** '' @ str_int (dict_get (metrics st) ''relevant_prs'' 0) @ ''\<newline>''
     @ ''- **Files in area:** '' @ str_int (dict_get (metrics st) ''total_files'' 0) @ ''\<newline>\<newline>''"

text \<open>\<^verbatim>\<open>[(k.replace('tech_', ''), v) for k, v in self.metrics.items() if k.startswith('tech_')]\<close>\<close>

definition tech_metrics :: "int dict \<Rightarrow> int dict" where
  "tech_metrics m =
     map (\<lambda>kv. (py_replace ''tech_'' [] (fst kv), snd kv))
       (filter (\<lambda>kv. startswith (fst kv) ''tech_'') m)"

definition tech_line :: "string \<times> int \<Rightarrow> string" where
  "tech_line tc =
     (if 3 \<le> snd tc then ''- **'' @ py_title (fst tc) @ ''**: '' @ str_int (snd tc) @ '' commits\<newline>''
      else [])"

definition render_tech_focus :: "guideline_refresher \<Rightarrow> string" where
  "render_tech_focus st =
     (if tech_metrics (metrics st) \<noteq> []
      then ''## Technology Focus\<newline>\<newline>''
           @ ''Based on commit message analysis:\<newline>\<newline>''
           @ concat (map tech_line (sorted_by_count_desc (tech_metrics (metrics st))))
           @ ''\<newline>''
      else [])"

subsection \<open>Floating point\<close>

text \<open>
  A Python float is an IEEE 754 double. The model takes a finite double as the rational
  number it stands for and rounds every result to 53 significant bits, to the nearest
  value and to the even significand on a tie, as the hardware and CPython's
  \<^verbatim>\<open>int / int\<close> do. The exponent range is not bounded: a quotient of \<open>2 ^ 1024\<close> or
  more (\<^verbatim>\<open>OverflowError\<close>) or below \<open>2 ^ - 1022\<close> (gradual underflow) needs a count of
  more than 300 decimal digits.
\<close>

text \<open>\<^verbatim>\<open>n.bit_length()\<close> for a positive \<open>n\<close>\<close>

function bit_length :: "int \<Rightarrow> nat" where
  "bit_length n = (if n \<le> 0 then 0 else Suc (bit_length (n div 2)))"
  by pat_completeness auto
termination
  by (relation "measure nat") auto

declare bit_length.simps [simp del]

definition pow2 :: "int \<Rightarrow> rat" where
  "pow2 e = (if 0 \<le> e then 2 ^ nat e else 1 / 2 ^ nat (- e))"

text \<open>For a positive \<open>q\<close>, the exponent \<open>e\<close> with \<open>2 ^ e \<le> q < 2 ^ (e + 1)\<close>.\<close>

definition floor_log2 :: "rat \<Rightarrow> int" where
  "floor_log2 q =
     (let d = int (bit_length (fst (quotient_of q))) - int (bit_length (snd (quotient_of q)))
      in if pow2 d \<le> q then d else d - 1)"

text \<open>The nearest integer, the even one on a tie.\<close>

definition round_half_even :: "rat \<Rightarrow> int" where
  "round_half_even x =
     (let n = \<lfloor>x\<rfloor>; r = x - of_int n
      in if r < 1 / 2 then n else if 1 / 2 < r then n + 1 else if even n then n else n + 1)"

text \<open>The double nearest to \<open>q\<close>: a multiple of \<open>2 ^ (e - 52)\<close> for the exponent \<open>e\<close>
  of \<open>q\<close>.\<close>

definition round_double :: "rat \<Rightarrow> rat" where
  "round_double q =
     (if q = 0 then 0
      else (let ulp = pow2 (floor_log2 \<bar>q\<bar> - 52)
            in sgn q * of_int (round_half_even (\<bar>q\<bar> / ulp)) * ulp))"

text \<open>\<^verbatim>\<open>a / b\<close> on integers: the correctly rounded quotient.\<close>

definition py_truediv :: "int \<Rightarrow> int \<Rightarrow> error + rat" where
  "py_truediv a b =
     (if b = 0 then Inl ZeroDivisionError else Inr (round_double (of_int a / of_int b)))"

text \<open>\<^verbatim>\<open>x * y\<close> on floats\<close>

definition float_mul :: "rat \<Rightarrow> rat \<Rightarrow> rat" where
  "float_mul x y = round_double (x * y)"

text \<open>\<^verbatim>\<open>f"{x:.1f}"\<close>: the decimal expansion of \<open>x\<close> rounded to one digit after the
  point, to the even digit on a tie of the exact value; \<open>tenths x\<close> is the printed number
  in units of 0.1, without its sign. The integer 0 is printed as \<^verbatim>\<open>0.0\<close> too.\<close>

definition tenths :: "rat \<Rightarrow> int" where
  "tenths x = round_half_even (\<bar>x\<bar> * 10)"

definition format_1f :: "rat \<Rightarrow> string" where
  "format_1f x =
     (if x < 0 then ''-'' else []) @ str_nat (nat (tenths x div 10)) @ ''.''
     @ [digit_char (nat (tenths x mod 10))]"

text \<open>\<^verbatim>\<open>(count / total * 100) if total > 0 else 0\<close>\<close>

definition percentage :: "int \<Rightarrow> int \<Rightarrow> error + rat" where
  "percentage count whole =
     (if 0 < whole
      then (case py_truediv count whole of Inl err \<Rightarrow> Inl err | Inr q \<Rightarrow> Inr (float_mul q 100))
      else Inr 0)"

fun file_type_lines :: "int \<Rightarrow> int dict \<Rightarrow> error + string" where
  "file_type_lines whole [] = Inr []"
| "file_type_lines whole (fc # rest) =
     (case percentage (snd fc) whole of
        Inl err \<Rightarrow> Inl err
      | Inr p \<Rightarrow>
          (case file_type_lines whole rest of
             Inl err \<Rightarrow> Inl err
           | Inr below \<Rightarrow>
               Inr (''- `'' @ fst fc @ ''`: '' @ str_int (snd fc) @ '' files ('' @ format_1f p @ ''%)\<newline>''
                    @ below)))"

definition render_file_organization :: "guideline_refresher \<Rightarrow> error + string" where
  "render_file_organization st =
     (case file_types (findings st) of
        None \<Rightarrow> Inr []
      | Some ft \<Rightarrow>
          if ft = [] then Inr []
          else (case file_type_lines (dict_get (metrics st) ''total_files'' 0) (take 5 ft) of
                  Inl err \<Rightarrow> Inl err
                | Inr ls \<Rightarrow>
                    Inr (''## File Organization\<newline>\<newline>''
                         @ ''**Primary file types:**\<newline>\<newline>'' @ ls @ ''\<newline>'')))"

fun naming_lines :: "int \<Rightarrow> int dict \<Rightarrow> error + string" where
  "naming_lines total_named [] = Inr []"
| "naming_lines total_named (pc # rest) =
     (case percentage (snd pc) total_named of
        Inl err \<Rightarrow> Inl err
      | Inr p \<Rightarrow>
          (case naming_lines total_named rest of
             Inl err \<Rightarrow> Inl err
           | Inr below \<Rightarrow>
               Inr (''- **'' @ fst pc @ ''**: '' @ str_int (snd pc) @ '' files ('' @ format_1f p @ ''%)\<newline>''
                    @ below)))"

definition render_naming :: "guideline_refresher \<Rightarrow> error + string" where
  "render_naming st =
     (case naming_conventions (findings st) of
        None \<Rightarrow> Inr []
      | Some nc \<Rightarrow>
          if nc = [] then Inr []
          else (case naming_lines (sum_list (map snd nc)) (sorted_by_count_desc nc) of
                  Inl err \<Rightarrow> Inl err
                | Inr ls \<Rightarrow>
                    (let dominant = max_item (hd nc) (tl nc)
                     in Inr (''## Naming Conventions\<newline>\<newline>''
                             @ ''**Observed naming patterns:**\<newline>\<newline>'' @ ls
                             @ ''\<newline>**Recommendation:** Follow `'' @ fst dominant
                             @ ''` pattern (dominant in '' @ str_int (snd dominant)
                             @ '' files)\<newline>\<newline>''))))"

text \<open>The body of \<^verbatim>\<open>for theme, count in list(self.findings['review_themes'].items())[:5]\<close>.\<close>

definition review_theme_block :: "string list dict \<Rightarrow> string \<times> int \<Rightarrow> string" where
  "review_theme_block fb tc =
     ''### '' @ py_title (py_replace ''_'' '' '' (fst tc)) @ '' ('' @ str_int (snd tc)
     @ '' mentions)\<newline>\<newline>''
     @ (case map_of fb (fst tc @ ''_feedback'') of
          None \<Rightarrow> []
        | Some samples \<Rightarrow>
            if samples = [] then []
            else (let sample = py_strip (py_replace ''\<newline>'' '' '' (hd samples));
                      sample' = (if 200 < length sample then take 200 sample @ ''...'' else sample)
                  in ''Example feedback: '' @ [CHR 0x22] @ sample' @ [CHR 0x22]
                     @ ''\<newline>\<newline>''))"

definition render_review_focus :: "guideline_refresher \<Rightarrow> string" where
  "render_review_focus st =
     (case review_themes (findings st) of
        None \<Rightarrow> []
      | Some themes \<Rightarrow>
          if themes = [] then []
          else ''## Code Review Focus Areas\<newline>\<newline>''
               @ ''Based on recurring themes in PR reviews:\<newline>\<newline>''
               @ concat (map (review_theme_block (feedback (findings st))) (take 5 themes)))"

text \<open>\<^verbatim>\<open>refactor_types[category].append(msg)\<close> on a \<^verbatim>\<open>defaultdict(list)\<close>.\<close>

definition dict_append :: "string list dict \<Rightarrow> string \<Rightarrow> string \<Rightarrow> string list dict" where
  "dict_append d k v = dict_set d k (dict_get d k [] @ [v])"

definition refactor_category :: "string \<Rightarrow> string" where
  "refactor_category msg =
     (if py_in ''typescript'' (py_lower msg) \<or> py_in ''type'' (py_lower msg) then ''TypeScript Migration''
      else if py_in ''test'' (py_lower msg) then ''Testing Improvements''
      else if py_in ''component'' (py_lower msg) \<or> py_in ''react'' (py_lower msg)
      then ''Component Refactoring''
      else ''General Improvements'')"

definition refactor_block :: "string \<times> string list \<Rightarrow> string" where
  "refactor_block cm =
     ''**'' @ fst cm @ ''** ('' @ str_int (int (length (snd cm))) @ '' commits):\<newline>''
     @ concat (map (\<lambda>msg. ''- '' @ msg @ ''\<newline>'') (take 3 (snd cm)))
     @ ''\<newline>''"

definition render_recent_evolution :: "guideline_refresher \<Rightarrow> string" where
  "render_recent_evolution st =
     (case refactor_commits (findings st) of
        None \<Rightarrow> []
      | Some commits \<Rightarrow>
          if commits = [] then []
          else ''## Recent Evolution\<newline>\<newline>''
               @ ''**Recent refactoring themes:**\<newline>\<newline>''
               @ concat (map refactor_block
                   (fold (\<lambda>msg refactor_types. dict_append refactor_types (refactor_category msg) msg)
                      (take 10 commits) [])))"

text \<open>\<^verbatim>\<open>self.findings.get('review_themes', {}).get(theme, 0)\<close>\<close>

definition theme_count :: "guideline_refresher \<Rightarrow> string \<Rightarrow> int" where
  "theme_count st theme =
     (case review_themes (findings st) of None \<Rightarrow> 0 | Some themes \<Rightarrow> dict_get themes theme 0)"

definition generate_recommendations :: "guideline_refresher \<Rightarrow> string list" where
  "generate_recommendations st =
     (let ts_mentions = dict_get (metrics st) ''tech_typescript'' 0;
          test_mentions = dict_get (metrics st) ''tech_testing'' 0;
          react_mentions = dict_get (metrics st) ''tech_react'' 0
      in (if 10 < ts_mentions
          then [''**Strong TypeScript usage detected.** Enforce strict type checking and avoid `any` types. ''
                @ ''Consider enabling `strictNullChecks` and `noImplicitAny` in tsconfig.json.'']
          else if 5 < ts_mentions
          then [''**TypeScript adoption in progress.** Continue migrating JavaScript files to TypeScript. ''
                @ ''Define interfaces for all props and function parameters.'']
          else [])
         @ (if 5 < theme_count st ''testing'' \<or> 8 < test_mentions
            then [''**Testing is a priority.** Ensure all new code includes tests. ''
                  @ ''PR reviews frequently mention testing - make it a first-class concern.'']
            else [])
         @ (if 3 < theme_count st ''performance''
            then [''**Performance optimization is a recurring theme.** Profile before optimizing. ''
                  @ ''Consider React.memo, useMemo, and code splitting for large components.'']
            else [])
         @ (if 5 < theme_count st ''code_organization''
            then [''**Code organization is frequently discussed.** Follow established file structure patterns. ''
                  @ ''Keep related files together and maintain consistent directory organization.'']
            else [])
         @ (if 3 < theme_count st ''error_handling''
            then [''**Error handling needs attention.** Implement consistent error handling patterns. ''
                  @ ''Use try-catch blocks, provide meaningful error messages, and handle edge cases.'']
            else [])
         @ (if 10 < react_mentions
            then [''**React patterns are dominant.** Use functional components with hooks. ''
                  @ ''Avoid class components for new code. Follow React best practices for state management.'']
            else []))"

text \<open>\<^verbatim>\<open>for i, rec in enumerate(recommendations, 1)\<close>\<close>

fun recommendation_lines :: "int \<Rightarrow> string list \<Rightarrow> string" where
  "recommendation_lines i [] = []"
| "recommendation_lines i (r # rs) =
     str_int i @ ''. '' @ r @ ''\<newline>'' @ recommendation_lines (i + 1) rs"

definition render_recommendations :: "guideline_refresher \<Rightarrow> string" where
  "render_recommendations st =
     (if generate_recommendations st \<noteq> []
      then ''## Recommendations\<newline>\<newline>''
           @ ''Based on the analysis above:\<newline>\<newline>''
           @ recommendation_lines 1 (generate_recommendations st) @ ''\<newline>''
      else [])"

definition code_examples :: string where
  "code_examples =
     ''## Code Examples\<newline>\<newline>''
     @ ''> **Note:** Add specific code examples from recent merged PRs that demonstrate the recommended patterns.\<newline>\<newline>''"

definition trailer :: string where
  "trailer =
     ''---\<newline>\<newline>''
     @ ''*These guidelines are automatically generated based on actual codebase patterns. ''
     @ ''Review and enhance with code examples and project-specific context.*\<newline>''"

text \<open>Everything \<^verbatim>\<open>generate_updated_guidelines\<close> writes before it looks at the
  previous document.\<close>

definition guidelines_body :: "environment \<Rightarrow> guideline_refresher \<Rightarrow> error + string" where
  "guidelines_body env st =
     (case render_file_organization st of
        Inl err \<Rightarrow> Inl err
      | Inr file_organization \<Rightarrow>
          (case render_naming st of
             Inl err \<Rightarrow> Inl err
           | Inr naming \<Rightarrow>
               Inr (render_header (now_guidelines env) st @ render_tech_focus st
                    @ file_organization @ naming @ render_review_focus st
                    @ render_recent_evolution st @ render_recommendations st @ code_examples)))"

subsection \<open>\_compare\_guidelines\<close>

text \<open>\<^verbatim>\<open>re.findall(r'^## (.+)$', text, re.MULTILINE)\<close>: the rest of every line that
  starts with \<^verbatim>\<open>## \<close> and goes on for at least one character.\<close>

definition is_h2_line :: "string \<Rightarrow> bool" where
  "is_h2_line line = (startswith line ''## '' \<and> 3 < length line)"

definition h2_titles :: "string \<Rightarrow> string list" where
  "h2_titles text = map (drop 3) (filter is_h2_line (split_on CHR 0x0A text))"

text \<open>\<^verbatim>\<open>re.search(r'Total commits analyzed:\*\* (\d+)', text)\<close>: the digits of the
  leftmost match, if there is one.\<close>

fun search_total_commits :: "string \<Rightarrow> string option" where
  "search_total_commits [] = None"
| "search_total_commits (c # cs) =
     (if startswith (c # cs) ''Total commits analyzed:** ''
         \<and> takeWhile is_digit_c (drop 26 (c # cs)) \<noteq> []
      then Some (takeWhile is_digit_c (drop 26 (c # cs)))
      else search_total_commits cs)"

definition section_lines :: "string list \<Rightarrow> string" where
  "section_lines sections = concat (map (\<lambda>section. ''- '' @ section @ ''\<newline>'') sections)"

text \<open>What \<^verbatim>\<open>_compare_guidelines\<close> builds from the old text and the text its call of
  \<^verbatim>\<open>generate_updated_guidelines\<close> returned.\<close>

definition comparison_text :: "string \<Rightarrow> string \<Rightarrow> guideline_refresher \<Rightarrow> string" where
  "comparison_text old_guidelines new_guidelines_text st =
     (let old_sections = h2_titles old_guidelines;
          new_sections = h2_titles new_guidelines_text;
          added = sort (remdups (filter (\<lambda>t. t \<notin> set old_sections) new_sections));
          removed = sort (remdups (filter (\<lambda>t. t \<notin> set new_sections) old_sections));
          common = remdups (filter (\<lambda>t. t \<in> set new_sections) old_sections)
      in (if added \<noteq> [] then ''**New sections:**\<newline>'' @ section_lines added @ ''\<newline>'' else [])
         @ (if removed \<noteq> [] then ''**Removed sections:**\<newline>'' @ section_lines removed @ ''\<newline>''
            else [])
         @ (if common \<noteq> []
            then ''**Updated sections:** '' @ str_int (int (length common))
                 @ '' sections refined based on recent activity\<newline>\<newline>''
            else [])
         @ (if added = [] \<and> removed = []
            then ''Guidelines structure maintained, content updated based on recent patterns.\<newline>''
            else [])
         @ (case search_total_commits old_guidelines of
              None \<Rightarrow> []
            | Some digits \<Rightarrow>
                ''\<newline>**Data freshness:** Analyzed ''
                @ str_int (dict_get (metrics st) ''total_commits'' 0)
                @ '' recent commits (previous: '' @ str_int (int_of_digits digits) @ '')\<newline>''))"

definition first_version :: string where
  "first_version =
     ''## Changes from Previous Guidelines\<newline>\<newline>''
     @ ''*This is the first version of guidelines for this area.*\<newline>\<newline>''"

text \<open>
  \<^verbatim>\<open>generate_updated_guidelines\<close> and \<^verbatim>\<open>_compare_guidelines\<close> call each other.
  The first argument is the number of frames left: a call with none left raises
  \<^verbatim>\<open>RecursionError\<close>, and neither method catches it.
\<close>

fun generate_updated_guidelines ::
    "nat \<Rightarrow> environment \<Rightarrow> filesystem \<Rightarrow> guideline_refresher \<Rightarrow> error + string"
  and compare_guidelines ::
    "nat \<Rightarrow> environment \<Rightarrow> filesystem \<Rightarrow> guideline_refresher \<Rightarrow> string \<Rightarrow> error + string"
where
  "generate_updated_guidelines 0 env fs st = Inl RecursionError"
| "generate_updated_guidelines (Suc frames) env fs st =
     (case guidelines_body env st of
        Inl err \<Rightarrow> Inl err
      | Inr guidelines \<Rightarrow>
          (case load_current_guidelines fs st of
             None \<Rightarrow> Inr (guidelines @ first_version @ trailer)
           | Some current \<Rightarrow>
               if current = [] then Inr (guidelines @ first_version @ trailer)
               else (case compare_guidelines frames env fs st current of
                       Inl err \<Rightarrow> Inl err
                     | Inr comparison \<Rightarrow>
                         Inr (guidelines @ ''## Changes from Previous Guidelines\<newline>\<newline>''
                              @ comparison @ ''\<newline>'' @ trailer))))"
| "compare_guidelines 0 env fs st old_guidelines = Inl RecursionError"
| "compare_guidelines (Suc frames) env fs st old_guidelines =
     (case generate_updated_guidelines frames env fs st of
        Inl err \<Rightarrow> Inl err
      | Inr new_guidelines_text \<Rightarrow> Inr (comparison_text old_guidelines new_guidelines_text st))"

subsection \<open>save\_guidelines\<close>

definition guidelines_dir :: "guideline_refresher \<Rightarrow> string list" where
  "guidelines_dir st = path_join (repo_root st) ''.claude/guidelines''"

definition save_guidelines_path :: "guideline_refresher \<Rightarrow> string list" where
  "save_guidelines_path st = path_join (guidelines_dir st) (area_filename (area st) @ ''.md'')"

definition backup_path :: "environment \<Rightarrow> guideline_refresher \<Rightarrow> string list" where
  "backup_path env st =
     path_join (guidelines_dir st) (area_filename (area st) @ ''.'' @ now_backup env @ ''.md.bak'')"

text \<open>\<^verbatim>\<open>self.config['output_format'].get('backup_previous', True)\<close>\<close>

definition backup_wanted :: "config_dict \<Rightarrow> bool" where
  "backup_wanted cfg = (case backup_previous cfg of None \<Rightarrow> True | Some b \<Rightarrow> b)"

text \<open>The new file system and \<^verbatim>\<open>output_path\<close>. A rename moves the content to the
  backup path and leaves nothing at the old one.\<close>

definition save_guidelines ::
  "environment \<Rightarrow> filesystem \<Rightarrow> guideline_refresher \<Rightarrow> string \<Rightarrow> filesystem \<times> string list" where
  "save_guidelines env fs st guidelines =
     (let output_path = save_guidelines_path st;
          fs1 = (case fs output_path of
                   None \<Rightarrow> fs
                 | Some previous \<Rightarrow>
                     if backup_wanted (config st)
                     then (fs(output_path := None))(backup_path env st \<mapsto> previous)
                     else fs)
      in (fs1(output_path \<mapsto> guidelines), output_path))"

subsection \<open>generate\_report\<close>

definition get_depth_from_config :: "guideline_refresher \<Rightarrow> string" where
  "get_depth_from_config st =
     (if 0 < dict_get (metrics st) ''total_commits'' 0 then ''standard'' else ''unknown'')"

text \<open>One round of \<^verbatim>\<open>for key in metric_keys\<close>.\<close>

definition metric_line :: "int dict \<Rightarrow> string \<Rightarrow> string" where
  "metric_line m key =
     (case map_of m key of
        None \<Rightarrow> []
      | Some v \<Rightarrow>
          ''- **'' @ py_title (py_replace ''tech '' [] (py_replace ''_'' '' '' key)) @ '':** ''
          @ str_int v @ ''\<newline>'')"

definition metric_category :: "int dict \<Rightarrow> string \<Rightarrow> string list \<Rightarrow> string" where
  "metric_category m category metric_keys =
     ''### '' @ category @ ''\<newline>\<newline>'' @ concat (map (metric_line m) metric_keys) @ ''\<newline>''"

text \<open>\<^verbatim>\<open>if self.findings:\<close>: some key is present.\<close>

definition findings_nonempty :: "findings_dict \<Rightarrow> bool" where
  "findings_nonempty f =
     (refactor_commits f \<noteq> None \<or> review_themes f \<noteq> None \<or> file_types f \<noteq> None
      \<or> naming_conventions f \<noteq> None \<or> feedback f \<noteq> [])"

definition key_findings :: "findings_dict \<Rightarrow> string" where
  "key_findings f =
     (if findings_nonempty f
      then ''## Key Findings\<newline>\<newline>''
        @ (case review_themes f of
             None \<Rightarrow> []
           | Some themes \<Rightarrow>
               ''### PR Review Themes\<newline>\<newline>''
               @ ''Most frequently mentioned topics in code reviews:\<newline>\<newline>''
               @ concat (map (\<lambda>tc. ''- **'' @ py_title (py_replace ''_'' '' '' (fst tc)) @ ''**: ''
                                    @ str_int (snd tc) @ '' mentions\<newline>'')
                           (sorted_by_count_desc themes))
               @ ''\<newline>'')
        @ (case file_types f of
             None \<Rightarrow> []
           | Some ft \<Rightarrow>
               ''### File Type Distribution\<newline>\<newline>''
               @ concat (map (\<lambda>fc. ''- `'' @ fst fc @ ''`: '' @ str_int (snd fc) @ '' files\<newline>'')
                           (take 5 ft))
               @ ''\<newline>'')
        @ (case naming_conventions f of
             None \<Rightarrow> []
           | Some nc \<Rightarrow>
               ''### Naming Conventions\<newline>\<newline>''
               @ concat (map (\<lambda>pc. ''- **'' @ fst pc @ ''**: '' @ str_int (snd pc) @ '' files\<newline>'')
                           (sorted_by_count_desc nc))
               @ ''\<newline>'')
        @ (case refactor_commits f of
             None \<Rightarrow> []
           | Some commits \<Rightarrow>
               if commits = [] then []
               else ''### Recent Refactoring Activity\<newline>\<newline>''
                    @ ''Found '' @ str_int (int (length commits))
                    @ '' refactoring-related commits:\<newline>\<newline>''
                    @ concat (map (\<lambda>msg. ''- '' @ msg @ ''\<newline>'') (take 5 commits))
                    @ ''\<newline>'')
      else [])"

text \<open>The body of \<^verbatim>\<open>for section in feedback_sections[:3]\<close>.\<close>

definition feedback_block :: "string \<times> string list \<Rightarrow> string" where
  "feedback_block ks =
     (if take 2 (snd ks) \<noteq> []
      then ''### '' @ py_title (py_replace ''_'' '' '' (py_replace ''_feedback'' [] (fst ks)))
           @ ''\<newline>\<newline>''
           @ concat (map (\<lambda>sample.
               (let clean_sample = py_strip (py_replace ''\<newline>'' '' '' sample)
                in ''> '' @ (if 250 < length clean_sample then take 250 clean_sample @ ''...''
                             else clean_sample)
                   @ ''\<newline>\<newline>''))
               (take 2 (snd ks)))
      else [])"

definition sample_feedback :: "findings_dict \<Rightarrow> string" where
  "sample_feedback f =
     (let feedback_sections = filter (\<lambda>ks. endswith (fst ks) ''_feedback'') (feedback f)
      in if feedback_sections \<noteq> []
         then ''## Sample Review Feedback\<newline>\<newline>''
              @ concat (map feedback_block (take 3 feedback_sections))
         else [])"

definition next_steps :: string where
  "next_steps =
     ''## Next Steps\<newline>\<newline>''
     @ ''1. Review the generated guidelines in `.claude/guidelines/`\<newline>''
     @ ''2. Add specific code examples from recent merged PRs\<newline>''
     @ ''3. Validate recommendations align with project standards\<newline>''
     @ ''4. Share with team for feedback\<newline>''
     @ ''5. Commit updated guidelines to version control\<newline>\<newline>''
     @ ''---\<newline>\<newline>''
     @ ''*Report generated by Guideline Refresher Skill*\<newline>''"

definition report_text :: "string \<Rightarrow> guideline_refresher \<Rightarrow> string" where
  "report_text date st =
     ''# Guideline Refresh Report\<newline>\<newline>''
     @ ''**Area:** `'' @ area st @ ''`\<newline>''
     @ ''**Date:** '' @ date @ ''\<newline>''
     @ ''**Analysis Depth:** '' @ get_depth_from_config st @ ''\<newline>\<newline>''
     @ ''## Executive Summary\<newline>\<newline>''
     @ ''This report documents the analysis performed to refresh coding guidelines for `''
     @ area st @ ''`.\<newline>\<newline>''
     @ ''## Metrics\<newline>\<newline>''
     @ metric_category (metrics st) ''Volume'' [''total_commits'', ''relevant_prs'', ''total_files'']
     @ metric_category (metrics st) ''Technology''
         (filter (\<lambda>k. startswith k ''tech_'') (map fst (metrics st)))
     @ key_findings (findings st)
     @ sample_feedback (findings st)
     @ next_steps"

definition report_path :: "environment \<Rightarrow> guideline_refresher \<Rightarrow> string list" where
  "report_path env st =
     path_join (path_join (repo_root st) ''.claude/reports'')
       (''guideline-refresh-'' @ now_report_name env @ ''.md'')"

definition generate_report ::
  "environment \<Rightarrow> filesystem \<Rightarrow> guideline_refresher \<Rightarrow> filesystem \<times> string list" where
  "generate_report env fs st =
     (fs(report_path env st \<mapsto> report_text (now_report_date env) st), report_path env st)"

subsection \<open>run\<close>

text \<open>What \<^verbatim>\<open>run\<close> returns, with the instance as the run left it.\<close>

record run_result =
  guidelines_path :: "string list"
  report_file :: "string list"
  final_state :: guideline_refresher

text \<open>The three analysis phases of \<^verbatim>\<open>run\<close>, for the preset \<open>p\<close>;
  \<^verbatim>\<open>config['commit_days']\<close> and \<^verbatim>\<open>config['pr_limit']\<close> raise
  \<^verbatim>\<open>KeyError\<close> on a preset without them.\<close>

definition run_analysis :: "preset \<Rightarrow> environment \<Rightarrow> guideline_refresher \<Rightarrow> error + guideline_refresher" where
  "run_analysis p env st =
     (case map_of p ''commit_days'' of
        None \<Rightarrow> Inl (KeyError ''commit_days'')
      | Some commit_days \<Rightarrow>
          (let st1 = analyze_git_history (git_log env commit_days) st
           in (case map_of p ''pr_limit'' of
                 None \<Rightarrow> Inl (KeyError ''pr_limit'')
               | Some pr_limit \<Rightarrow>
                   analyze_file_patterns (area_tree env)
                     (analyze_pr_reviews (gh_available env) (gh_pr_list env pr_limit) st1))))"

text \<open>\<^verbatim>\<open>run(depth)\<close> on the instance \<open>st\<close> and the file system \<open>fs\<close>; an invalid
  depth ends the process with \<^verbatim>\<open>sys.exit(1)\<close>.\<close>

definition run ::
  "string \<Rightarrow> environment \<Rightarrow> filesystem \<Rightarrow> guideline_refresher \<Rightarrow> error + filesystem \<times> run_result" where
  "run depth env fs st =
     (case map_of (analysis_depth (config st)) depth of
        None \<Rightarrow> Inl (SystemExit 1)
      | Some p \<Rightarrow>
          (case run_analysis p env st of
             Inl err \<Rightarrow> Inl err
           | Inr st3 \<Rightarrow>
               (case generate_updated_guidelines (recursion_limit env) env fs st3 of
                  Inl err \<Rightarrow> Inl err
                | Inr guidelines \<Rightarrow>
                    (let saved = save_guidelines env fs st3 guidelines;
                         reported = generate_report env (fst saved) st3
                     in Inr (fst reported,
                             \<lparr> guidelines_path = snd saved, report_file = snd reported,
                               final_state = st3 \<rparr>)))))"

subsection \<open>Vocabulary for statements about the rendered text\<close>

text \<open>
  The sections of a document are its level-2 headings as \<^verbatim>\<open>_compare_guidelines\<close>
  reads them (\<open>h2_titles\<close>). The predicates below say that a text holds no line
  break, that a text is empty or ends a line, and that such a text has no level-2
  heading. A text that the program takes from outside (the area name, a file name, the
  clock) can only be told apart from the program's own lines when it holds no line break.
\<close>

definition nl_free :: "string \<Rightarrow> bool" where
  "nl_free s = (CHR 0x0A \<notin> set s)"

definition nl_free_keys :: "'v dict \<Rightarrow> bool" where
  "nl_free_keys d = list_all (\<lambda>kv. nl_free (fst kv)) d"

definition ends_line :: "string \<Rightarrow> bool" where
  "ends_line s = (s = [] \<or> last s = CHR 0x0A)"

definition no_h2 :: "string \<Rightarrow> bool" where
  "no_h2 s = (ends_line s \<and> h2_titles s = [])"

text \<open>\<open>titled s ts\<close>: the text \<open>s\<close> is empty or ends a line, and its level-2 headings
  are \<open>ts\<close>, in this order.\<close>

definition titled :: "string \<Rightarrow> string list \<Rightarrow> bool" where
  "titled s ts = (ends_line s \<and> h2_titles s = ts)"

text \<open>The texts of an instance that reach the guidelines document (the area name, the
  keys of the metrics and of the counted findings, the refactor commit messages) hold no
  line break.\<close>

definition single_line_state :: "guideline_refresher \<Rightarrow> bool" where
  "single_line_state st =
     (nl_free (area st) \<and> nl_free_keys (metrics st)
      \<and> (case file_types (findings st) of None \<Rightarrow> True | Some ft \<Rightarrow> nl_free_keys ft)
      \<and> (case naming_conventions (findings st) of None \<Rightarrow> True | Some nc \<Rightarrow> nl_free_keys nc)
      \<and> (case review_themes (findings st) of None \<Rightarrow> True | Some themes \<Rightarrow> nl_free_keys themes)
      \<and> (case refactor_commits (findings st) of None \<Rightarrow> True | Some commits \<Rightarrow> list_all nl_free commits))"

text \<open>The level-2 headings that \<^verbatim>\<open>generate_updated_guidelines\<close> writes for an instance
  without a previous document, in the order of the source.\<close>

definition expected_sections :: "guideline_refresher \<Rightarrow> string list" where
  "expected_sections st =
     [''Analysis Summary'']
     @ (if tech_metrics (metrics st) \<noteq> [] then [''Technology Focus''] else [])
     @ (if file_types (findings st) = None \<or> file_types (findings st) = Some [] then []
        else [''File Organization''])
     @ (if naming_conventions (findings st) = None \<or> naming_conventions (findings st) = Some [] then []
        else [''Naming Conventions''])
     @ (if review_themes (findings st) = None \<or> review_themes (findings st) = Some [] then []
        else [''Code Review Focus Areas''])
     @ (if refactor_commits (findings st) = None \<or> refactor_commits (findings st) = Some [] then []
        else [''Recent Evolution''])
     @ (if generate_recommendations st \<noteq> [] then [''Recommendations''] else [])
     @ [''Code Examples'', ''Changes from Previous Guidelines'']"


text \<open>The share of \<open>count\<close> in \<open>whole\<close> in percent as an exact number, under the guard of
  the program; the program computes it in floating point (\<open>percentage\<close>) and prints it
  with one decimal (\<open>format_1f\<close>).\<close>

definition exact_share :: "int \<Rightarrow> int \<Rightarrow> rat" where
  "exact_share count whole = (if 0 < whole then of_int count / of_int whole * 100 else 0)"


section \<open>Properties\<close>

subsection \<open>Dictionaries, substrings and path names\<close>

lemma map_of_dict_set: "map_of (dict_set d k v) = (map_of d)(k \<mapsto> v)"
  by (induction d) (auto simp: fun_eq_iff)

lemma dict_get_set: "dict_get (dict_set d k v) k' dflt = (if k' = k then v else dict_get d k' dflt)"
  by (simp add: dict_get_def map_of_dict_set)

lemma dict_get_counter_inc:
  "dict_get (counter_inc d k) k' 0 = (if k' = k then dict_get d k 0 + 1 else dict_get d k' 0)"
  by (simp add: counter_inc_def dict_get_set)

lemma dict_get_Nil: "dict_get [] k dflt = dflt"
  by (simp add: dict_get_def)

lemma startswith_iff: "startswith s p \<longleftrightarrow> (\<exists>ss. s = p @ ss)"
  by (induction s p rule: startswith.induct) auto

lemma py_in_iff: "py_in sub s \<longleftrightarrow> (\<exists>ps ss. s = ps @ sub @ ss)"
proof (induction s)
  case Nil
  then show ?case by auto
next
  case (Cons c cs)
  show ?case
  proof
    assume "py_in sub (c # cs)"
    then consider "startswith (c # cs) sub" | "py_in sub cs" by auto
    then show "\<exists>ps ss. c # cs = ps @ sub @ ss"
    proof cases
      case 1
      then obtain ss where "c # cs = sub @ ss" by (auto simp: startswith_iff)
      then have "c # cs = [] @ sub @ ss" by simp
      then show ?thesis by blast
    next
      case 2
      with Cons.IH obtain ps ss where "cs = ps @ sub @ ss" by blast
      then have "c # cs = (c # ps) @ sub @ ss" by simp
      then show ?thesis by blast
    qed
  next
    assume "\<exists>ps ss. c # cs = ps @ sub @ ss"
    then obtain ps ss where eq: "c # cs = ps @ sub @ ss" by blast
    show "py_in sub (c # cs)"
    proof (cases ps)
      case Nil
      with eq have "startswith (c # cs) sub" by (auto simp: startswith_iff)
      then show ?thesis by simp
    next
      case (Cons p ps')
      with eq have "cs = ps' @ sub @ ss" by simp
      with Cons.IH have "py_in sub cs" by blast
      then show ?thesis by simp
    qed
  qed
qed

lemma path_stem_nonempty: "path_suffix name \<noteq> [] \<Longrightarrow> path_stem name \<noteq> []"
  by (auto simp: path_suffix_def path_stem_def Let_def split: if_splits)

lemma naming_bucket_Cons:
  "naming_bucket (c # cs) \<in> Inr ` {''PascalCase'', ''snake_case'', ''kebab-case'', ''camelCase'', ''mixed''}"
  by (simp add: naming_bucket_def)

lemma counter_inc_inject: "counter_inc d k = counter_inc d k' \<Longrightarrow> k = k'"
proof (rule ccontr)
  assume eq: "counter_inc d k = counter_inc d k'" and ne: "k \<noteq> k'"
  have "dict_get (counter_inc d k) k 0 = dict_get d k 0 + 1"
    by (simp add: dict_get_counter_inc)
  moreover have "dict_get (counter_inc d k') k 0 = dict_get d k 0"
    using ne by (simp add: dict_get_counter_inc)
  ultimately show False using eq by simp
qed

subsection \<open>Naming conventions\<close>

text \<open>
  C3. For a code file whose base name is not an index name, the \<^verbatim>\<open>if\<close>/\<^verbatim>\<open>elif\<close>
  chain of the file survey picks exactly one of the five buckets PascalCase, snake\_case,
  kebab-case, camelCase and mixed, and the survey adds one to the count of that bucket
  and of no other; a base name that lower-cases to \<^verbatim>\<open>index\<close> or \<^verbatim>\<open>__init__\<close> is
  skipped, leaving the counts as they are. \<^verbatim>\<open>Button\<close> is PascalCase,
  \<^verbatim>\<open>my_file\<close> snake\_case, \<^verbatim>\<open>my-file\<close> kebab-case, \<^verbatim>\<open>myFile\<close> camelCase and
  \<^verbatim>\<open>My_File\<close> mixed.
\<close>

theorem naming_rules_assign_one_bucket:
  assumes code: "path_suffix (path_name (parts e)) \<in> set code_extensions" and isf: "is_file e"
  shows "(if is_index_name (path_stem (path_name (parts e)))
          then naming_step e np = Inr np
          else (\<exists>!b. b \<in> {''PascalCase'', ''snake_case'', ''kebab-case'', ''camelCase'', ''mixed''}
                  \<and> naming_bucket (path_stem (path_name (parts e))) = Inr b
                  \<and> naming_step e np = Inr (counter_inc np b)))
         \<and> naming_bucket ''Button'' = Inr ''PascalCase''
         \<and> naming_bucket ''my_file'' = Inr ''snake_case''
         \<and> naming_bucket ''my-file'' = Inr ''kebab-case''
         \<and> naming_bucket ''myFile'' = Inr ''camelCase''
         \<and> naming_bucket ''My_File'' = Inr ''mixed''
         \<and> is_index_name ''index'' \<and> is_index_name ''__init__''
         \<and> is_index_name ''Index'' \<and> is_index_name ''__INIT__''
         \<and> is_index_name name = (py_lower name = ''index'' \<or> py_lower name = ''__init__'')"
proof -
  let ?stem = "path_stem (path_name (parts e))"
  from code have "path_suffix (path_name (parts e)) \<noteq> []"
    by (auto simp: code_extensions_def)
  then have "?stem \<noteq> []" by (rule path_stem_nonempty)
  then obtain c cs where stem: "?stem = c # cs" by (cases ?stem) auto
  have step: "if is_index_name ?stem then naming_step e np = Inr np
     else (\<exists>!b. b \<in> {''PascalCase'', ''snake_case'', ''kebab-case'', ''camelCase'', ''mixed''}
             \<and> naming_bucket ?stem = Inr b \<and> naming_step e np = Inr (counter_inc np b))"
  proof (cases "is_index_name ?stem")
    case True
    with code isf show ?thesis by (simp add: naming_step_def)
  next
    case False
    from naming_bucket_Cons [of c cs] stem obtain b
      where b: "b \<in> {''PascalCase'', ''snake_case'', ''kebab-case'', ''camelCase'', ''mixed''}"
        and nb: "naming_bucket ?stem = Inr b" by auto
    from code isf False nb have st: "naming_step e np = Inr (counter_inc np b)"
      by (simp add: naming_step_def)
    have "\<exists>!b. b \<in> {''PascalCase'', ''snake_case'', ''kebab-case'', ''camelCase'', ''mixed''}
             \<and> naming_bucket ?stem = Inr b \<and> naming_step e np = Inr (counter_inc np b)"
    proof (rule ex1I [of _ b])
      from b nb st
      show "b \<in> {''PascalCase'', ''snake_case'', ''kebab-case'', ''camelCase'', ''mixed''}
             \<and> naming_bucket ?stem = Inr b \<and> naming_step e np = Inr (counter_inc np b)"
        by (intro conjI)
    next
      fix b'
      assume "b' \<in> {''PascalCase'', ''snake_case'', ''kebab-case'', ''camelCase'', ''mixed''}
             \<and> naming_bucket ?stem = Inr b' \<and> naming_step e np = Inr (counter_inc np b')"
      then have "naming_bucket ?stem = Inr b'" by (elim conjE)
      with nb show "b' = b" by simp
    qed
    with False show ?thesis by (simp only: if_False)
  qed
  have ex: "naming_bucket ''Button'' = Inr ''PascalCase''"
    "naming_bucket ''my_file'' = Inr ''snake_case''"
    "naming_bucket ''my-file'' = Inr ''kebab-case''"
    "naming_bucket ''myFile'' = Inr ''camelCase''"
    "naming_bucket ''My_File'' = Inr ''mixed''"
    by code_simp+
  have idx: "is_index_name ''index''" "is_index_name ''__init__''"
    "is_index_name ''Index''" "is_index_name ''__INIT__''"
    by code_simp+
  have gen: "is_index_name name = (py_lower name = ''index'' \<or> py_lower name = ''__init__'')"
    by (auto simp: is_index_name_def)
  show ?thesis by (intro conjI step ex idx gen)
qed

text \<open>The theorem at the file \<^verbatim>\<open>/repo/src/my_file.py\<close> and the empty count.\<close>

theorem naming_rules_assign_one_bucket_witness:
  "path_suffix (path_name (parts \<lparr>parts = [''/'', ''repo'', ''src'', ''my_file.py''], is_file = True\<rparr>))
     \<in> set code_extensions
   \<and> is_file \<lparr>parts = [''/'', ''repo'', ''src'', ''my_file.py''], is_file = True\<rparr>
   \<and> (\<exists>!b. b \<in> {''PascalCase'', ''snake_case'', ''kebab-case'', ''camelCase'', ''mixed''}
          \<and> naming_bucket ''my_file'' = Inr b
          \<and> naming_step \<lparr>parts = [''/'', ''repo'', ''src'', ''my_file.py''], is_file = True\<rparr> []
              = Inr (counter_inc [] b))"
proof -
  let ?e = "\<lparr>parts = [''/'', ''repo'', ''src'', ''my_file.py''], is_file = True\<rparr>"
  have code: "path_suffix (path_name (parts ?e)) \<in> set code_extensions" by code_simp
  have isf: "is_file ?e" by simp
  have stem: "path_stem (path_name (parts ?e)) = ''my_file''" by code_simp
  have idx: "\<not> is_index_name ''my_file''" by code_simp
  from naming_rules_assign_one_bucket [OF code isf, where np = "[]"]
  have "if is_index_name (path_stem (path_name (parts ?e))) then naming_step ?e [] = Inr []
        else (\<exists>!b. b \<in> {''PascalCase'', ''snake_case'', ''kebab-case'', ''camelCase'', ''mixed''}
                \<and> naming_bucket (path_stem (path_name (parts ?e))) = Inr b
                \<and> naming_step ?e [] = Inr (counter_inc [] b))"
    by (rule conjunct1)
  then have "\<exists>!b. b \<in> {''PascalCase'', ''snake_case'', ''kebab-case'', ''camelCase'', ''mixed''}
                \<and> naming_bucket ''my_file'' = Inr b
                \<and> naming_step ?e [] = Inr (counter_inc [] b)"
    using idx by (simp only: stem if_False)
  with code isf show ?thesis by (intro conjI)
qed

subsection \<open>The guidelines file of an area\<close>

lemma py_replace_char: "py_replace [a] [b] s = map (\<lambda>c. if c = a then b else c) s"
  by (induction s) auto

lemma area_filename_map:
  "area_filename a = map (\<lambda>c. if c = CHR ''/'' \<or> c = CHR 0x5C then CHR ''_'' else c) a"
  by (simp add: area_filename_def py_replace_char)

lemma area_filename_no_slash: "CHR ''/'' \<notin> set (area_filename a)"
  by (auto simp: area_filename_map)

lemma split_on_nonempty: "split_on sep s \<noteq> []"
  by (induction s) (auto split: list.splits)

lemma split_on_free: "sep \<notin> set s \<Longrightarrow> split_on sep s = [s]"
  by (induction s) auto

lemma split_on_append_free:
  "sep \<notin> set s \<Longrightarrow> split_on sep (s @ sep # r) = s # split_on sep r"
  by (induction s) auto

lemma startswith_Cons_mem: "startswith s (c # p) \<Longrightarrow> c \<in> set s"
  by (cases s) auto

lemma posix_parts_guidelines_file:
  assumes "CHR ''/'' \<notin> set fn"
  shows "posix_parts (''.claude/guidelines/'' @ fn @ ''.md'') = [''.claude'', ''guidelines'', fn @ ''.md'']"
proof -
  have "''.claude/guidelines/'' @ fn @ ''.md'' = ''.claude'' @ CHR ''/'' # (''guidelines'' @ CHR ''/'' # (fn @ ''.md''))"
    by simp
  moreover have "split_on CHR ''/'' (''.claude'' @ CHR ''/'' # (''guidelines'' @ CHR ''/'' # (fn @ ''.md'')))
      = [''.claude'', ''guidelines'', fn @ ''.md'']"
  proof -
    have a: "split_on CHR ''/'' (fn @ ''.md'') = [fn @ ''.md'']"
      using assms by (simp add: split_on_free)
    have b: "split_on CHR ''/'' (''guidelines'' @ CHR ''/'' # r) = ''guidelines'' # split_on CHR ''/'' r" for r
      by (rule split_on_append_free) simp
    have c: "split_on CHR ''/'' (''.claude'' @ CHR ''/'' # r) = ''.claude'' # split_on CHR ''/'' r" for r
      by (rule split_on_append_free) simp
    show ?thesis by (simp only: a b c)
  qed
  ultimately show ?thesis by (simp add: posix_parts_def)
qed

lemma posix_parts_guidelines_dir: "posix_parts ''.claude/guidelines'' = [''.claude'', ''guidelines'']"
  by code_simp

lemma posix_parts_file:
  assumes "CHR ''/'' \<notin> set fn"
  shows "posix_parts (fn @ ''.md'') = [fn @ ''.md'']"
  using assms by (simp add: posix_parts_def split_on_free)

lemma guidelines_dir_parts: "guidelines_dir st = repo_root st @ [''.claude'', ''guidelines'']"
  by (simp add: guidelines_dir_def path_join_def posix_parts_guidelines_dir)

lemma save_guidelines_path_parts:
  "save_guidelines_path st = repo_root st @ [''.claude'', ''guidelines'', area_filename (area st) @ ''.md'']"
proof -
  have ns: "CHR ''/'' \<notin> set (area_filename (area st) @ ''.md'')"
    using area_filename_no_slash [of "area st"] by simp
  have "\<not> startswith (area_filename (area st) @ ''.md'') (CHR ''/'' # p)" for p
    using ns startswith_Cons_mem by blast
  then show ?thesis
    by (simp add: save_guidelines_path_def path_join_def guidelines_dir_parts
        posix_parts_file area_filename_no_slash)
qed

lemma load_guidelines_path_parts:
  "load_guidelines_path st = repo_root st @ [''.claude'', ''guidelines'', area_filename (area st) @ ''.md'']"
proof -
  have "posix_parts (''.claude/guidelines/'' @ area_filename (area st) @ ''.md'')
      = [''.claude'', ''guidelines'', area_filename (area st) @ ''.md'']"
    by (rule posix_parts_guidelines_file) (rule area_filename_no_slash)
  then show ?thesis
    by (simp add: load_guidelines_path_def path_join_def)
qed

text \<open>
  C7. The path of the guidelines file depends on the area name (and the repository root)
  only: \<^verbatim>\<open>load_current_guidelines\<close> reads and \<^verbatim>\<open>save_guidelines\<close> writes the
  same file, \<^verbatim>\<open>.claude/guidelines/<name>.md\<close> under the repository root, where
  \<^verbatim>\<open><name>\<close> is the area name with every \<^verbatim>\<open>/\<close> and every backslash replaced by
  \<^verbatim>\<open>_\<close>.
\<close>

theorem guidelines_path_function_of_area:
  "load_guidelines_path st = save_guidelines_path st
   \<and> save_guidelines_path st
       = repo_root st @ [''.claude'', ''guidelines'',
           map (\<lambda>c. if c = CHR ''/'' \<or> c = CHR 0x5C then CHR ''_'' else c) (area st) @ ''.md'']
   \<and> load_current_guidelines fs st = fs (save_guidelines_path st)
   \<and> snd (save_guidelines env fs st guidelines) = save_guidelines_path st
   \<and> fst (save_guidelines env fs st guidelines) (save_guidelines_path st) = Some guidelines"
proof -
  have eq: "load_guidelines_path st = save_guidelines_path st"
    by (simp add: load_guidelines_path_parts save_guidelines_path_parts)
  have parts: "save_guidelines_path st
       = repo_root st @ [''.claude'', ''guidelines'',
           map (\<lambda>c. if c = CHR ''/'' \<or> c = CHR 0x5C then CHR ''_'' else c) (area st) @ ''.md'']"
    by (simp add: save_guidelines_path_parts area_filename_map)
  have load: "load_current_guidelines fs st = fs (save_guidelines_path st)"
    by (simp add: load_current_guidelines_def eq)
  have out: "snd (save_guidelines env fs st guidelines) = save_guidelines_path st"
    by (simp add: save_guidelines_def Let_def)
  have written: "fst (save_guidelines env fs st guidelines) (save_guidelines_path st) = Some guidelines"
    by (simp add: save_guidelines_def Let_def)
  show ?thesis by (intro conjI eq parts load out written)
qed

subsection \<open>Keyword matching\<close>

lemma any_in_iff: "any_in keywords text \<longleftrightarrow> (\<exists>kw \<in> set keywords. \<exists>ps ss. text = ps @ kw @ ss)"
  by (simp add: any_in_def list_ex_iff py_in_iff)

lemma dict_get_tech_step:
  "dict_get (tech_step ml tk m) k 0
     = dict_get m k 0 + (if k = ''tech_'' @ fst tk \<and> any_in (snd tk) ml then 1 else 0)"
  by (simp add: tech_step_def dict_get_counter_inc)

lemma dict_get_fold_tech_step:
  "dict_get (fold (tech_step ml) tks m) k 0
     = dict_get m k 0 + int (length (filter (\<lambda>tk. k = ''tech_'' @ fst tk \<and> any_in (snd tk) ml) tks))"
  by (induction tks arbitrary: m) (simp_all add: dict_get_tech_step)

lemma metrics_commit_step:
  "metrics (commit_step commit st)
     = fold (tech_step (py_lower (commit_message commit))) tech_keywords (metrics st)"
  by (simp add: commit_step_def Let_def)

lemma filter_key_distinct:
  "distinct (map fst xs) \<Longrightarrow> x \<in> set xs
   \<Longrightarrow> filter (\<lambda>y. fst x = fst y \<and> P y) xs = (if P x then [x] else [])"
proof (induction xs)
  case Nil
  then show ?case by simp
next
  case (Cons y ys)
  show ?case
  proof (cases "x = y")
    case True
    from Cons.prems have "fst y \<notin> fst ` set ys" by simp
    then have "filter (\<lambda>z. fst y = fst z \<and> P z) ys = []"
      by (auto simp: filter_empty_conv)
    with True show ?thesis by simp
  next
    case False
    with Cons.prems have mem: "x \<in> set ys" and "fst y \<notin> fst ` set ys" by auto
    then have "fst x \<noteq> fst y" by (metis imageI)
    with Cons.IH Cons.prems mem show ?thesis by simp
  qed
qed

lemma distinct_tech_keywords: "distinct (map fst tech_keywords)"
  by (simp add: tech_keywords_def)

lemma distinct_theme_patterns: "distinct (map fst theme_patterns)"
  by (simp add: theme_patterns_def)

lemma tech_counts_commit_step:
  "list_all (\<lambda>tk. dict_get (metrics (commit_step commit st)) (''tech_'' @ fst tk) 0
        = dict_get (metrics st) (''tech_'' @ fst tk) 0
          + (if any_in (snd tk) (py_lower (commit_message commit)) then 1 else 0)) tech_keywords"
  unfolding list_all_iff
proof
  fix tk
  assume "tk \<in> set tech_keywords"
  then have "filter (\<lambda>y. fst tk = fst y \<and> any_in (snd y) (py_lower (commit_message commit))) tech_keywords
      = (if any_in (snd tk) (py_lower (commit_message commit)) then [tk] else [])"
    by (rule filter_key_distinct [OF distinct_tech_keywords])
  then show "dict_get (metrics (commit_step commit st)) (''tech_'' @ fst tk) 0
        = dict_get (metrics st) (''tech_'' @ fst tk) 0
          + (if any_in (snd tk) (py_lower (commit_message commit)) then 1 else 0)"
    by (simp add: metrics_commit_step dict_get_fold_tech_step)
qed

lemma dict_get_theme_step:
  "dict_get (fst (theme_step body bl tp acc)) k 0
     = dict_get (fst acc) k 0 + (if k = fst tp \<and> any_in (snd tp) bl then 1 else 0)"
  by (simp add: theme_step_def dict_get_counter_inc)

lemma dict_get_fold_theme_step:
  "dict_get (fst (fold (theme_step body bl) tps acc)) k 0
     = dict_get (fst acc) k 0 + int (length (filter (\<lambda>tp. k = fst tp \<and> any_in (snd tp) bl) tps))"
  by (induction tps arbitrary: acc) (simp_all add: dict_get_theme_step)

lemma theme_counts_review_step:
  assumes "body \<noteq> []"
  shows "list_all (\<lambda>tp. dict_get (fst (review_step body acc)) (fst tp) 0
        = dict_get (fst acc) (fst tp) 0 + (if any_in (snd tp) (py_lower body) then 1 else 0)) theme_patterns"
  unfolding list_all_iff
proof
  fix tp
  assume "tp \<in> set theme_patterns"
  then have "filter (\<lambda>y. fst tp = fst y \<and> any_in (snd y) (py_lower body)) theme_patterns
      = (if any_in (snd tp) (py_lower body) then [tp] else [])"
    by (rule filter_key_distinct [OF distinct_theme_patterns])
  with assms show "dict_get (fst (review_step body acc)) (fst tp) 0
        = dict_get (fst acc) (fst tp) 0 + (if any_in (snd tp) (py_lower body) then 1 else 0)"
    by (simp add: review_step_def dict_get_fold_theme_step)
qed

lemma substring_trans:
  assumes "\<exists>ps ss. kw' = ps @ kw @ ss" and "\<exists>ps ss. text = ps @ kw' @ ss"
  shows "\<exists>ps ss. text = ps @ kw @ ss"
proof -
  from assms obtain p1 s1 p2 s2 where "kw' = p1 @ kw @ s1" "text = p2 @ kw' @ s2" by blast
  then have "text = (p2 @ p1) @ kw @ (s1 @ s2)" by simp
  then show ?thesis by blast
qed

lemma typescripted_matches:
  assumes "\<exists>ps ss. text = ps @ ''typescripted'' @ ss"
  shows "any_in [''typescript'', ''ts'', ''.tsx''] text"
proof -
  have "''typescripted'' = [] @ ''typescript'' @ ''ed''" by simp
  then have "\<exists>ps ss. ''typescripted'' = ps @ ''typescript'' @ ss" by blast
  from substring_trans [OF this assms] show ?thesis by (simp add: any_in_iff)
qed

text \<open>
  C4. Technology and theme classification is substring matching on the lower-cased
  text. Processing a commit raises the counter \<^verbatim>\<open>tech_<category>\<close> of each of the six
  technology categories by one exactly when some keyword of the category occurs as a
  contiguous substring of the lower-cased commit message, and leaves it as it is
  otherwise; processing a non-empty review body does the same to the counter of each of
  the eight themes. A message whose lower-cased text contains \<^verbatim>\<open>typescripted\<close>
  therefore raises \<^verbatim>\<open>tech_typescript\<close>. The categories are counted independently
  of each other.
\<close>

theorem keyword_matching_is_substring_matching:
  "list_all (\<lambda>tk. dict_get (metrics (commit_step commit st)) (''tech_'' @ fst tk) 0
        = dict_get (metrics st) (''tech_'' @ fst tk) 0
          + (if (\<exists>kw \<in> set (snd tk). \<exists>ps ss. py_lower (commit_message commit) = ps @ kw @ ss)
             then 1 else 0)) tech_keywords
   \<and> (body \<noteq> [] \<longrightarrow>
        list_all (\<lambda>tp. dict_get (fst (review_step body acc)) (fst tp) 0
          = dict_get (fst acc) (fst tp) 0
            + (if (\<exists>kw \<in> set (snd tp). \<exists>ps ss. py_lower body = ps @ kw @ ss) then 1 else 0))
          theme_patterns)
   \<and> ((\<exists>ps ss. py_lower (commit_message commit) = ps @ ''typescripted'' @ ss) \<longrightarrow>
        dict_get (metrics (commit_step commit st)) ''tech_typescript'' 0
          = dict_get (metrics st) ''tech_typescript'' 0 + 1)"
proof (intro conjI impI)
  show "list_all (\<lambda>tk. dict_get (metrics (commit_step commit st)) (''tech_'' @ fst tk) 0
        = dict_get (metrics st) (''tech_'' @ fst tk) 0
          + (if (\<exists>kw \<in> set (snd tk). \<exists>ps ss. py_lower (commit_message commit) = ps @ kw @ ss)
             then 1 else 0)) tech_keywords"
    using tech_counts_commit_step [of commit st] by (simp only: any_in_iff)
next
  assume ne: "body \<noteq> []"
  show "list_all (\<lambda>tp. dict_get (fst (review_step body acc)) (fst tp) 0
          = dict_get (fst acc) (fst tp) 0
            + (if (\<exists>kw \<in> set (snd tp). \<exists>ps ss. py_lower body = ps @ kw @ ss) then 1 else 0))
          theme_patterns"
    using theme_counts_review_step [OF ne, of acc] by (simp only: any_in_iff)
next
  assume "\<exists>ps ss. py_lower (commit_message commit) = ps @ ''typescripted'' @ ss"
  then have m: "any_in [''typescript'', ''ts'', ''.tsx''] (py_lower (commit_message commit))"
    by (rule typescripted_matches)
  have "(''typescript'', [''typescript'', ''ts'', ''.tsx'']) \<in> set tech_keywords"
    by (simp add: tech_keywords_def)
  with tech_counts_commit_step [of commit st]
  have "dict_get (metrics (commit_step commit st)) (''tech_'' @ ''typescript'') 0
        = dict_get (metrics st) (''tech_'' @ ''typescript'') 0
          + (if any_in [''typescript'', ''ts'', ''.tsx''] (py_lower (commit_message commit)) then 1 else 0)"
    unfolding list_all_iff by fastforce
  with m show "dict_get (metrics (commit_step commit st)) ''tech_typescript'' 0
          = dict_get (metrics st) ''tech_typescript'' 0 + 1"
    by simp
qed

text \<open>
  The theorem at the commit \<^verbatim>\<open>def456 Refactor TypeScripted things\<close> and the review
  body \<^verbatim>\<open>Please add a unit test\<close>; the commit \<^verbatim>\<open>abc123 fix react tests\<close> raises
  three technology counters at once.
\<close>

theorem keyword_matching_is_substring_matching_witness:
  "(\<exists>ps ss. py_lower (commit_message ''def456 Refactor TypeScripted things'') = ps @ ''typescripted'' @ ss)
   \<and> dict_get (metrics (commit_step ''def456 Refactor TypeScripted things''
         (init_refresher ''src'' [''/'', ''repo''] default_config))) ''tech_typescript'' 0 = 1
   \<and> ''Please add a unit test'' \<noteq> []
   \<and> dict_get (fst (review_step ''Please add a unit test'' ([], []))) ''testing'' 0 = 1
   \<and> dict_get (fst (review_step ''Please add a unit test'' ([], []))) ''naming'' 0 = 0
   \<and> metrics (commit_step ''abc123 fix react tests'' (init_refresher ''src'' [''/'', ''repo''] default_config))
       = [(''tech_typescript'', 1), (''tech_react'', 1), (''tech_testing'', 1)]"
proof -
  let ?c = "''def456 Refactor TypeScripted things''"
  let ?st = "init_refresher ''src'' [''/'', ''repo''] default_config"
  let ?b = "''Please add a unit test''"
  note inst = keyword_matching_is_substring_matching [of ?c ?st ?b "([], [])"]
  have low: "py_lower (commit_message ?c) = ''refactor typescripted things''" by code_simp
  have "''refactor typescripted things'' = ''refactor '' @ ''typescripted'' @ '' things''" by simp
  with low have ex: "\<exists>ps ss. py_lower (commit_message ?c) = ps @ ''typescripted'' @ ss" by metis
  from inst [THEN conjunct2, THEN conjunct2, THEN mp, OF ex]
  have ts: "dict_get (metrics (commit_step ?c ?st)) ''tech_typescript'' 0 = 1"
    by (simp add: init_refresher_def dict_get_Nil)
  have ne: "?b \<noteq> []" by simp
  note all = inst [THEN conjunct2, THEN conjunct1, THEN mp, OF ne]
  have lowb: "py_lower ?b = ''please add a unit test''" by code_simp
  have t_in: "(''testing'', [''test'', ''coverage'', ''jest'', ''spec'', ''unit test'', ''integration test''])
      \<in> set theme_patterns" by (simp add: theme_patterns_def)
  have "''please add a unit test'' = ''please add a unit '' @ ''test'' @ []" by simp
  with lowb have "\<exists>ps ss. py_lower ?b = ps @ ''test'' @ ss" by metis
  then have hit: "\<exists>kw \<in> set [''test'', ''coverage'', ''jest'', ''spec'', ''unit test'', ''integration test''].
      \<exists>ps ss. py_lower ?b = ps @ kw @ ss" by simp
  from all t_in have "dict_get (fst (review_step ?b ([], []))) ''testing'' 0
      = dict_get (fst ([], [])) ''testing'' 0
        + (if (\<exists>kw \<in> set [''test'', ''coverage'', ''jest'', ''spec'', ''unit test'', ''integration test''].
              \<exists>ps ss. py_lower ?b = ps @ kw @ ss) then 1 else 0)"
    unfolding list_all_iff by fastforce
  with hit have testing: "dict_get (fst (review_step ?b ([], []))) ''testing'' 0 = 1"
    by (simp add: dict_get_Nil)
  have naming: "dict_get (fst (review_step ?b ([], []))) ''naming'' 0 = 0" by code_simp
  have several: "metrics (commit_step ''abc123 fix react tests'' ?st)
       = [(''tech_typescript'', 1), (''tech_react'', 1), (''tech_testing'', 1)]" by code_simp
  show ?thesis by (intro conjI ex ts ne testing naming several)
qed

subsection \<open>The file survey\<close>

lemma sum_dict_set:
  "sum_list (map snd (dict_set d k v)) = sum_list (map snd d) - dict_get d k 0 + (v::int)"
  by (induction d) (auto simp: dict_get_def)

lemma sum_counter_inc: "sum_list (map snd (counter_inc d k)) = sum_list (map snd d) + 1"
  by (simp add: counter_inc_def sum_dict_set)

lemma set_dict_set: "set (dict_set d k v) \<subseteq> insert (k, v) (set d)"
  by (induction d) (auto split: if_splits)

lemma dict_get_nonneg:
  "list_all (\<lambda>kv. 0 \<le> snd kv) d \<Longrightarrow> 0 \<le> dict_get d k (0::int)"
  by (induction d) (auto simp: dict_get_def)

lemma counter_inc_nonneg:
  assumes "list_all (\<lambda>kv. 0 \<le> snd kv) d"
  shows "list_all (\<lambda>kv. 0 \<le> snd kv) (counter_inc d k)"
proof -
  have "0 \<le> dict_get d k 0 + 1" using dict_get_nonneg [OF assms, of k] by simp
  with assms set_dict_set [of d k "dict_get d k 0 + 1"] show ?thesis
    unfolding counter_inc_def list_all_iff by fastforce
qed

text \<open>The first loop of the survey.\<close>

lemma snd_file_step:
  "snd (file_step e acc) = snd acc + (if \<not> is_hidden e \<and> is_file e then 1 else 0)"
  by (simp add: file_step_def Let_def)

lemma sum_fst_file_step:
  "sum_list (map snd (fst (file_step e acc)))
     = sum_list (map snd (fst acc))
       + (if \<not> is_hidden e \<and> is_file e \<and> path_suffix (path_name (parts e)) \<noteq> [] then 1 else 0)"
  by (simp add: file_step_def Let_def sum_counter_inc)

lemma total_files_fold:
  "snd (fold file_step es acc) = snd acc + int (length (filter (\<lambda>e. \<not> is_hidden e \<and> is_file e) es))"
  by (induction es arbitrary: acc) (simp_all add: snd_file_step)

lemma file_types_sum_fold:
  "sum_list (map snd (fst (fold file_step es acc)))
     = sum_list (map snd (fst acc))
       + int (length (filter (\<lambda>e. \<not> is_hidden e \<and> is_file e \<and> path_suffix (path_name (parts e)) \<noteq> []) es))"
  by (induction es arbitrary: acc) (simp_all add: sum_fst_file_step)

lemma file_types_nonneg_fold:
  "list_all (\<lambda>kv. 0 \<le> snd kv) (fst acc) \<Longrightarrow> list_all (\<lambda>kv. 0 \<le> snd kv) (fst (fold file_step es acc))"
proof (induction es arbitrary: acc)
  case Nil
  then show ?case by simp
next
  case (Cons e es)
  from Cons.prems have "list_all (\<lambda>kv. 0 \<le> snd kv) (fst (file_step e acc))"
    by (simp add: file_step_def Let_def counter_inc_nonneg)
  then show ?case using Cons.IH by simp
qed

lemma file_types_sum_le_total:
  "sum_list (map snd (fst (fold file_step es ([], 0)))) \<le> snd (fold file_step es ([], 0))"
proof -
  have "length (filter (\<lambda>e. \<not> is_hidden e \<and> is_file e \<and> path_suffix (path_name (parts e)) \<noteq> []) es)
      \<le> length (filter (\<lambda>e. \<not> is_hidden e \<and> is_file e) es)"
    by (induction es) auto
  then show ?thesis by (simp add: total_files_fold file_types_sum_fold)
qed

text \<open>The second loop never raises.\<close>

lemma naming_step_total:
  "\<exists>np'. naming_step e np = Inr np'"
proof (cases "path_suffix (path_name (parts e)) \<in> set code_extensions \<and> is_file e")
  case False
  then show ?thesis by (auto simp: naming_step_def)
next
  case True
  then have "path_suffix (path_name (parts e)) \<noteq> []" by (auto simp: code_extensions_def)
  then have "path_stem (path_name (parts e)) \<noteq> []" by (rule path_stem_nonempty)
  then obtain c cs where "path_stem (path_name (parts e)) = c # cs"
    by (cases "path_stem (path_name (parts e))") auto
  with naming_bucket_Cons [of c cs] obtain b where "naming_bucket (path_stem (path_name (parts e))) = Inr b"
    by auto
  with True show ?thesis by (simp add: naming_step_def Let_def)
qed

lemma naming_loop_total: "\<exists>np'. naming_loop es np = Inr np'"
proof (induction es arbitrary: np)
  case Nil
  then show ?case by simp
next
  case (Cons e es)
  from naming_step_total [of e np] obtain np1 where "naming_step e np = Inr np1" by blast
  with Cons.IH [of np1] show ?case by simp
qed

lemma analyze_file_patterns_total: "\<exists>st'. analyze_file_patterns tree st = Inr st'"
proof (cases tree)
  case None
  then show ?thesis by (simp add: analyze_file_patterns_def)
next
  case (Some es)
  from naming_loop_total [of es "[]"] obtain np where "naming_loop es [] = Inr np" by blast
  with Some show ?thesis by (simp add: analyze_file_patterns_def Let_def)
qed

lemma analyze_file_patterns_Some:
  assumes "analyze_file_patterns (Some es) st = Inr st'"
  shows "metrics st' = dict_set (metrics st) ''total_files'' (snd (fold file_step es ([], 0)))"
    and "file_types (findings st') = Some (most_common 10 (fst (fold file_step es ([], 0))))"
    and "review_themes (findings st') = review_themes (findings st)"
    and "refactor_commits (findings st') = refactor_commits (findings st)"
    and "feedback (findings st') = feedback (findings st)"
    and "area st' = area st" and "repo_root st' = repo_root st" and "config st' = config st"
  using assms by (auto simp: analyze_file_patterns_def Let_def split: sum.splits if_splits)

lemma analyze_file_patterns_None: "analyze_file_patterns None st = Inr st"
  by (simp add: analyze_file_patterns_def)

text \<open>
  C6. The first loop of the survey skips every entry with a path component that starts
  with a dot, so \<^verbatim>\<open>total_files\<close> (and with it \<^verbatim>\<open>file_types\<close>) counts the regular
  files without such a component. The second loop, which fills
  \<^verbatim>\<open>naming_conventions\<close>, has no such test: for an area whose only file is
  \<^verbatim>\<open>/repo/src/.cache/helper_mod.py\<close> the survey counts no file and no file type, and
  one snake\_case name.
\<close>

theorem hidden_file_counted_in_naming_conventions:
  "snd (fold file_step entries acc)
     = snd acc + int (length (filter (\<lambda>e. \<not> is_hidden e \<and> is_file e) entries))
   \<and> is_hidden \<lparr>parts = [''/'', ''repo'', ''src'', ''.cache'', ''helper_mod.py''], is_file = True\<rparr>
   \<and> (case analyze_file_patterns
             (Some [\<lparr>parts = [''/'', ''repo'', ''src'', ''.cache'', ''helper_mod.py''], is_file = True\<rparr>])
             (init_refresher ''src'' [''/'', ''repo''] default_config) of
         Inl err \<Rightarrow> False
       | Inr st \<Rightarrow> metrics st = [(''total_files'', 0)]
           \<and> file_types (findings st) = Some []
           \<and> naming_conventions (findings st) = Some [(''snake_case'', 1)])"
proof (intro conjI)
  show "snd (fold file_step entries acc)
     = snd acc + int (length (filter (\<lambda>e. \<not> is_hidden e \<and> is_file e) entries))"
    by (rule total_files_fold)
  show "is_hidden \<lparr>parts = [''/'', ''repo'', ''src'', ''.cache'', ''helper_mod.py''], is_file = True\<rparr>"
    by code_simp
  show "case analyze_file_patterns
             (Some [\<lparr>parts = [''/'', ''repo'', ''src'', ''.cache'', ''helper_mod.py''], is_file = True\<rparr>])
             (init_refresher ''src'' [''/'', ''repo''] default_config) of
         Inl err \<Rightarrow> False
       | Inr st \<Rightarrow> metrics st = [(''total_files'', 0)]
           \<and> file_types (findings st) = Some []
           \<and> naming_conventions (findings st) = Some [(''snake_case'', 1)]"
    by code_simp
qed

subsection \<open>Metrics through the three analysis phases\<close>

lemma metrics_commit_step_ge:
  "dict_get (metrics st) k 0 \<le> dict_get (metrics (commit_step commit st)) k 0"
  by (simp add: metrics_commit_step dict_get_fold_tech_step)

lemma metrics_fold_commit_step_ge:
  "dict_get (metrics st) k 0 \<le> dict_get (metrics (fold commit_step commits st)) k 0"
proof (induction commits arbitrary: st)
  case Nil
  then show ?case by simp
next
  case (Cons c cs)
  have "dict_get (metrics st) k 0 \<le> dict_get (metrics (commit_step c st)) k 0"
    by (rule metrics_commit_step_ge)
  also have "\<dots> \<le> dict_get (metrics (fold commit_step cs (commit_step c st))) k 0"
    by (rule Cons.IH)
  finally show ?case by simp
qed

lemma total_commits_commit_step:
  "dict_get (metrics (commit_step commit st)) ''total_commits'' 0 = dict_get (metrics st) ''total_commits'' 0"
  by (simp add: metrics_commit_step dict_get_fold_tech_step)

lemma total_commits_fold_commit_step:
  "dict_get (metrics (fold commit_step commits st)) ''total_commits'' 0
     = dict_get (metrics st) ''total_commits'' 0"
  by (induction commits arbitrary: st) (simp_all add: total_commits_commit_step)

lemma total_commits_analyze_git_history:
  "dict_get (metrics (analyze_git_history g st)) ''total_commits'' 0
     = (case g of None \<Rightarrow> 0 | Some stdout \<Rightarrow> int (length (commit_lines stdout)))"
  by (cases g) (simp_all add: analyze_git_history_def Let_def total_commits_fold_commit_step dict_get_set)

lemma metrics_analyze_git_history_ge:
  assumes "dict_get (metrics st) ''total_commits'' 0 = 0"
  shows "dict_get (metrics st) k 0 \<le> dict_get (metrics (analyze_git_history g st)) k 0"
proof (cases "k = ''total_commits''")
  case True
  with assms show ?thesis
    by (simp add: total_commits_analyze_git_history split: option.splits)
next
  case False
  show ?thesis
  proof (cases g)
    case None
    with False show ?thesis by (simp add: analyze_git_history_def dict_get_set)
  next
    case (Some stdout)
    let ?st1 = "st\<lparr>metrics := dict_set (metrics st) ''total_commits'' (int (length (commit_lines stdout)))\<rparr>"
    from False have "dict_get (metrics st) k 0 = dict_get (metrics ?st1) k 0"
      by (simp add: dict_get_set)
    also have "\<dots> \<le> dict_get (metrics (fold commit_step (commit_lines stdout) ?st1)) k 0"
      by (rule metrics_fold_commit_step_ge)
    finally show ?thesis using Some by (simp add: analyze_git_history_def Let_def)
  qed
qed

lemma metrics_analyze_pr_reviews:
  "dict_get (metrics (analyze_pr_reviews av res st)) k 0
     = (case (av, res) of
          (True, GhPRs prs) \<Rightarrow>
            (if k = ''relevant_prs'' then int (length (filter (touches_area (area st)) prs))
             else dict_get (metrics st) k 0)
        | _ \<Rightarrow> dict_get (metrics st) k 0)"
  by (cases res) (simp_all add: analyze_pr_reviews_def Let_def dict_get_set)

lemma relevant_prs_commit_step:
  "dict_get (metrics (commit_step commit st)) ''relevant_prs'' 0 = dict_get (metrics st) ''relevant_prs'' 0"
  by (simp add: metrics_commit_step dict_get_fold_tech_step)

lemma total_files_commit_step:
  "dict_get (metrics (commit_step commit st)) ''total_files'' 0 = dict_get (metrics st) ''total_files'' 0"
  by (simp add: metrics_commit_step dict_get_fold_tech_step)

lemma untouched_analyze_git_history:
  "dict_get (metrics (analyze_git_history g st)) ''relevant_prs'' 0 = dict_get (metrics st) ''relevant_prs'' 0"
  "dict_get (metrics (analyze_git_history g st)) ''total_files'' 0 = dict_get (metrics st) ''total_files'' 0"
proof -
  have a: "dict_get (metrics (fold commit_step cs s)) ''relevant_prs'' 0 = dict_get (metrics s) ''relevant_prs'' 0" for cs s
    by (induction cs arbitrary: s) (simp_all add: relevant_prs_commit_step)
  have b: "dict_get (metrics (fold commit_step cs s)) ''total_files'' 0 = dict_get (metrics s) ''total_files'' 0" for cs s
    by (induction cs arbitrary: s) (simp_all add: total_files_commit_step)
  show "dict_get (metrics (analyze_git_history g st)) ''relevant_prs'' 0 = dict_get (metrics st) ''relevant_prs'' 0"
    by (cases g) (simp_all add: analyze_git_history_def Let_def a dict_get_set)
  show "dict_get (metrics (analyze_git_history g st)) ''total_files'' 0 = dict_get (metrics st) ''total_files'' 0"
    by (cases g) (simp_all add: analyze_git_history_def Let_def b dict_get_set)
qed

lemma metrics_analyze_file_patterns:
  assumes "analyze_file_patterns tree st = Inr st'"
  shows "dict_get (metrics st') k 0
     = (case tree of
          None \<Rightarrow> dict_get (metrics st) k 0
        | Some es \<Rightarrow>
            (if k = ''total_files'' then int (length (filter (\<lambda>e. \<not> is_hidden e \<and> is_file e) es))
             else dict_get (metrics st) k 0))"
proof (cases tree)
  case None
  with assms show ?thesis by (simp add: analyze_file_patterns_None)
next
  case (Some es)
  with assms have "metrics st' = dict_set (metrics st) ''total_files'' (snd (fold file_step es ([], 0)))"
    by (simp add: analyze_file_patterns_Some)
  with Some show ?thesis by (simp add: dict_get_set total_files_fold)
qed

text \<open>
  C9. In a run that starts from a fresh instance, every metric is a non-negative
  integer, and no analysis phase lowers one: for every key, the value is 0 at the
  start and does not decrease through \<^verbatim>\<open>analyze_git_history\<close>,
  \<^verbatim>\<open>analyze_pr_reviews\<close> and \<^verbatim>\<open>analyze_file_patterns\<close>, whatever the three
  phases read; the survey never raises. When \<^verbatim>\<open>git log\<close> fails,
  \<^verbatim>\<open>total_commits\<close> is 0.
\<close>

theorem metrics_never_decrease_in_a_run:
  "(let s0 = init_refresher a r cfg;
        s1 = analyze_git_history g s0;
        s2 = analyze_pr_reviews av res s1
    in case analyze_file_patterns tree s2 of
         Inl err \<Rightarrow> False
       | Inr s3 \<Rightarrow>
           0 \<le> dict_get (metrics s0) k 0
           \<and> dict_get (metrics s0) k 0 \<le> dict_get (metrics s1) k 0
           \<and> dict_get (metrics s1) k 0 \<le> dict_get (metrics s2) k 0
           \<and> dict_get (metrics s2) k 0 \<le> dict_get (metrics s3) k 0)
   \<and> dict_get (metrics (analyze_git_history None (init_refresher a r cfg))) ''total_commits'' 0 = 0"
proof -
  define s0 where "s0 = init_refresher a r cfg"
  define s1 where "s1 = analyze_git_history g s0"
  define s2 where "s2 = analyze_pr_reviews av res s1"
  from analyze_file_patterns_total [of tree s2] obtain s3
    where s3: "analyze_file_patterns tree s2 = Inr s3" by blast
  have zero: "dict_get (metrics s0) key 0 = 0" for key
    by (simp add: s0_def init_refresher_def dict_get_Nil)
  have p0: "0 \<le> dict_get (metrics s0) k 0" by (simp add: zero)
  have p1: "dict_get (metrics s0) k 0 \<le> dict_get (metrics s1) k 0"
    unfolding s1_def by (rule metrics_analyze_git_history_ge) (rule zero)
  have prs1: "dict_get (metrics s1) ''relevant_prs'' 0 = 0"
    by (simp add: s1_def untouched_analyze_git_history zero)
  have files1: "dict_get (metrics s1) ''total_files'' 0 = 0"
    by (simp add: s1_def untouched_analyze_git_history zero)
  have p2: "dict_get (metrics s1) k 0 \<le> dict_get (metrics s2) k 0"
    using prs1 by (cases res; cases av) (simp_all add: s2_def metrics_analyze_pr_reviews)
  have files2: "dict_get (metrics s2) ''total_files'' 0 = 0"
    using files1 by (cases res; cases av) (simp_all add: s2_def metrics_analyze_pr_reviews)
  have p3: "dict_get (metrics s2) k 0 \<le> dict_get (metrics s3) k 0"
    using files2 by (cases tree) (simp_all add: metrics_analyze_file_patterns [OF s3])
  have failed: "dict_get (metrics (analyze_git_history None (init_refresher a r cfg))) ''total_commits'' 0 = 0"
    by (simp add: total_commits_analyze_git_history)
  from p0 p1 p2 p3 s3 have main: "case analyze_file_patterns tree s2 of
         Inl err \<Rightarrow> False
       | Inr s3 \<Rightarrow>
           0 \<le> dict_get (metrics s0) k 0
           \<and> dict_get (metrics s0) k 0 \<le> dict_get (metrics s1) k 0
           \<and> dict_get (metrics s1) k 0 \<le> dict_get (metrics s2) k 0
           \<and> dict_get (metrics s2) k 0 \<le> dict_get (metrics s3) k 0"
    by simp
  from main failed show ?thesis
    unfolding Let_def s2_def s1_def s0_def by (rule conjI)
qed

subsection \<open>Percentages\<close>

lemma percentage_eq:
  "percentage count whole
     = Inr (if 0 < whole then float_mul (round_double (of_int count / of_int whole)) 100 else 0)"
  by (simp add: percentage_def py_truediv_def)

lemma sum_insort_key:
  "sum_list (map f (insort_key g x xs)) = (f x :: int) + sum_list (map f xs)"
  by (induction xs) auto

lemma sum_sort_key: "sum_list (map f (sort_key g xs)) = (sum_list (map f xs) :: int)"
  by (induction xs) (simp_all add: sum_insort_key)

lemma sum_take_le:
  assumes "list_all (\<lambda>kv. 0 \<le> snd kv) xs"
  shows "sum_list (map snd (take n xs)) \<le> (sum_list (map snd xs) :: int)"
proof -
  have "list_all (\<lambda>kv. 0 \<le> snd kv) (drop n xs)"
    using assms unfolding list_all_iff by (auto dest: in_set_dropD)
  then have "0 \<le> sum_list (map snd (drop n xs))"
    unfolding list_all_iff by (auto intro!: sum_list_nonneg)
  moreover have "sum_list (map snd xs) = sum_list (map snd (take n xs)) + sum_list (map snd (drop n xs))"
    by (metis append_take_drop_id map_append sum_list.append)
  ultimately show ?thesis by simp
qed

lemma most_common_nonneg:
  assumes "list_all (\<lambda>kv. 0 \<le> snd kv) d"
  shows "list_all (\<lambda>kv. 0 \<le> snd kv) (most_common n d)"
  unfolding list_all_iff
proof
  fix kv
  assume "kv \<in> set (most_common n d)"
  then have "kv \<in> set d"
    by (auto simp: most_common_def sorted_by_count_desc_def dest: in_set_takeD)
  with assms show "0 \<le> snd kv" by (simp add: list_all_iff)
qed

lemma most_common_sum_le:
  assumes "list_all (\<lambda>kv. 0 \<le> snd kv) d"
  shows "sum_list (map snd (most_common n d)) \<le> sum_list (map snd d)"
proof -
  have "list_all (\<lambda>kv. 0 \<le> snd kv) (sorted_by_count_desc d)"
    using assms unfolding list_all_iff sorted_by_count_desc_def by simp
  then have "sum_list (map snd (take n (sorted_by_count_desc d))) \<le> sum_list (map snd (sorted_by_count_desc d))"
    by (rule sum_take_le)
  then show ?thesis by (simp add: most_common_def sorted_by_count_desc_def sum_sort_key)
qed

lemma sum_exact_share:
  "sum_list (map (\<lambda>fc. exact_share (snd fc) whole) xs) = exact_share (sum_list (map snd xs)) whole"
  by (induction xs) (simp_all add: exact_share_def add_divide_distrib distrib_right)

lemma exact_share_le:
  assumes "count \<le> whole"
  shows "exact_share count whole \<le> 100"
proof (cases "0 < whole")
  case True
  with assms have "of_int count / of_int whole \<le> (1::rat)" by simp
  then have "of_int count / of_int whole * 100 \<le> (1::rat) * 100"
    by (rule mult_right_mono) simp
  with True show ?thesis by (simp add: exact_share_def)
next
  case False
  then show ?thesis by (simp add: exact_share_def)
qed

lemma percentages_total: "\<exists>ps. map (\<lambda>fc. percentage (snd fc) whole) xs = map Inr ps"
proof -
  have "map (\<lambda>fc. percentage (snd fc) whole) xs
      = map Inr (map (\<lambda>fc. if 0 < whole
                               then float_mul (round_double (of_int (snd fc) / of_int whole)) 100
                               else 0) xs)"
    by (simp add: percentage_eq)
  then show ?thesis ..
qed

lemma file_type_lines_total: "\<exists>text. file_type_lines whole ft = Inr text"
proof (induction ft)
  case Nil
  then show ?case by simp
next
  case (Cons fc rest)
  then obtain below where "file_type_lines whole rest = Inr below" by blast
  then show ?case by (simp add: percentage_eq)
qed

lemma naming_lines_total: "\<exists>text. naming_lines whole nc = Inr text"
proof (induction nc)
  case Nil
  then show ?case by simp
next
  case (Cons pc rest)
  then obtain below where "naming_lines whole rest = Inr below" by blast
  then show ?case by (simp add: percentage_eq)
qed

lemma render_file_organization_total: "\<exists>text. render_file_organization st = Inr text"
proof (cases "file_types (findings st)")
  case None
  then show ?thesis by (simp add: render_file_organization_def)
next
  case (Some ft)
  from file_type_lines_total [of "dict_get (metrics st) ''total_files'' 0" "take 5 ft"]
  obtain ls where "file_type_lines (dict_get (metrics st) ''total_files'' 0) (take 5 ft) = Inr ls"
    by blast
  with Some show ?thesis by (simp add: render_file_organization_def)
qed

lemma render_naming_total: "\<exists>text. render_naming st = Inr text"
proof (cases "naming_conventions (findings st)")
  case None
  then show ?thesis by (simp add: render_naming_def)
next
  case (Some nc)
  from naming_lines_total [of "sum_list (map snd nc)" "sorted_by_count_desc nc"]
  obtain ls where "naming_lines (sum_list (map snd nc)) (sorted_by_count_desc nc) = Inr ls"
    by blast
  with Some show ?thesis by (simp add: render_naming_def Let_def)
qed

text \<open>
  C8. After the file survey, the counts of the listed file types (the first five of
  \<^verbatim>\<open>file_types\<close>) are non-negative and sum to at most \<^verbatim>\<open>total_files\<close>, so their
  exact shares sum to at most 100 percent; every percentage is computed without an
  error and the File Organization section is rendered. For \<^verbatim>\<open>total_files = 0\<close> no
  division takes place and the percentage is printed as \<^verbatim>\<open>0.0\<close>.
\<close>

theorem listed_file_type_counts_within_total:
  "(case analyze_file_patterns (Some entries) st of
      Inl err \<Rightarrow> False
    | Inr st' \<Rightarrow>
        (let listed = take 5 (case file_types (findings st') of None \<Rightarrow> [] | Some ft \<Rightarrow> ft);
             whole = dict_get (metrics st') ''total_files'' 0
         in list_all (\<lambda>fc. 0 \<le> snd fc) listed
            \<and> sum_list (map snd listed) \<le> whole
            \<and> sum_list (map (\<lambda>fc. exact_share (snd fc) whole) listed) \<le> 100
            \<and> (\<exists>ps. map (\<lambda>fc. percentage (snd fc) whole) listed = map Inr ps)
            \<and> (\<exists>text. render_file_organization st' = Inr text)))
   \<and> percentage count 0 = Inr 0 \<and> format_1f 0 = ''0.0''"
proof -
  from analyze_file_patterns_total [of "Some entries" st] obtain st'
    where st': "analyze_file_patterns (Some entries) st = Inr st'" by blast
  let ?acc = "fold file_step entries ([], 0)"
  let ?listed = "take 5 (most_common 10 (fst ?acc))"
  have ft: "file_types (findings st') = Some (most_common 10 (fst ?acc))"
    using st' by (rule analyze_file_patterns_Some)
  have "metrics st' = dict_set (metrics st) ''total_files'' (snd ?acc)"
    using st' by (rule analyze_file_patterns_Some)
  then have tf: "dict_get (metrics st') ''total_files'' 0 = snd ?acc"
    by (simp add: dict_get_set)
  have nn: "list_all (\<lambda>kv. 0 \<le> snd kv) (fst ?acc)"
    by (rule file_types_nonneg_fold) simp
  then have nn10: "list_all (\<lambda>kv. 0 \<le> snd kv) (most_common 10 (fst ?acc))"
    by (rule most_common_nonneg)
  then have nn5: "list_all (\<lambda>kv. 0 \<le> snd kv) ?listed"
    unfolding list_all_iff by (auto dest: in_set_takeD)
  have "sum_list (map snd ?listed) \<le> sum_list (map snd (most_common 10 (fst ?acc)))"
    using nn10 by (rule sum_take_le)
  also have "\<dots> \<le> sum_list (map snd (fst ?acc))"
    using nn by (rule most_common_sum_le)
  also have "\<dots> \<le> snd ?acc" by (rule file_types_sum_le_total)
  finally have le: "sum_list (map snd ?listed) \<le> snd ?acc" .
  have ex: "sum_list (map (\<lambda>fc. exact_share (snd fc) (snd ?acc)) ?listed) \<le> 100"
    unfolding sum_exact_share using le by (rule exact_share_le)
  have ps: "\<exists>ps. map (\<lambda>fc. percentage (snd fc) (snd ?acc)) ?listed = map Inr ps"
    by (rule percentages_total)
  have b: "\<exists>text. render_file_organization st' = Inr text"
    by (rule render_file_organization_total)
  have c: "percentage count 0 = Inr 0" by (simp add: percentage_eq)
  have d: "format_1f 0 = ''0.0''" by code_simp
  from nn5 le ex ps b c d show ?thesis by (simp add: st' ft tf Let_def)
qed

text \<open>
  The printed percentages can sum to more than 100. In an area with six files, four
  \<^verbatim>\<open>.ts\<close>, one \<^verbatim>\<open>.js\<close> and one \<^verbatim>\<open>.py\<close>, the section prints 66.7, 16.7 and 16.7,
  which sum to 100.1. For counts 7, 1 and 1 of nine files the three floating-point values
  themselves, before they are printed, sum to more than 100.
\<close>

theorem printed_file_type_percentages_exceed_100:
  "(case analyze_file_patterns
            (Some [\<lparr>parts = [''/'', ''repo'', ''src'', ''a.ts''], is_file = True\<rparr>,
                   \<lparr>parts = [''/'', ''repo'', ''src'', ''b.ts''], is_file = True\<rparr>,
                   \<lparr>parts = [''/'', ''repo'', ''src'', ''c.ts''], is_file = True\<rparr>,
                   \<lparr>parts = [''/'', ''repo'', ''src'', ''d.ts''], is_file = True\<rparr>,
                   \<lparr>parts = [''/'', ''repo'', ''src'', ''e.js''], is_file = True\<rparr>,
                   \<lparr>parts = [''/'', ''repo'', ''src'', ''f.py''], is_file = True\<rparr>])
            (init_refresher ''src'' [''/'', ''repo''] default_config) of
      Inl err \<Rightarrow> False
    | Inr st \<Rightarrow>
        metrics st = [(''total_files'', 6)]
        \<and> file_types (findings st) = Some [(''.ts'', 4), (''.js'', 1), (''.py'', 1)]
        \<and> render_file_organization st
            = Inr (''## File Organization\<newline>\<newline>''
                   @ ''**Primary file types:**\<newline>\<newline>''
                   @ ''- `.ts`: 4 files (66.7%)\<newline>''
                   @ ''- `.js`: 1 files (16.7%)\<newline>''
                   @ ''- `.py`: 1 files (16.7%)\<newline>\<newline>''))
   \<and> (case (percentage 4 6, percentage 1 6) of
         (Inr p, Inr q) \<Rightarrow> tenths p + tenths q + tenths q = 1001
       | _ \<Rightarrow> False)
   \<and> (case (percentage 7 9, percentage 1 9) of
         (Inr p, Inr q) \<Rightarrow> 100 < p + q + q
       | _ \<Rightarrow> False)"
  by code_simp


subsection \<open>Generating the guidelines\<close>

lemma guidelines_body_total: "\<exists>text. guidelines_body env st = Inr text"
proof -
  from render_file_organization_total [of st]
  obtain fo where fo: "render_file_organization st = Inr fo" by blast
  from render_naming_total [of st]
  obtain nm where nm: "render_naming st = Inr nm" by blast
  from fo nm show ?thesis by (simp add: guidelines_body_def)
qed

lemma trailer_nonempty: "trailer \<noteq> []"
  by (simp add: trailer_def)

lemma generate_first_version:
  assumes "load_current_guidelines fs st = None \<or> load_current_guidelines fs st = Some []"
    and "guidelines_body env st = Inr guidelines"
  shows "generate_updated_guidelines (Suc frames) env fs st = Inr (guidelines @ first_version @ trailer)"
  using assms by auto

lemma generate_and_compare_fail:
  assumes "load_current_guidelines fs st = Some current" and "current \<noteq> []"
  shows "generate_updated_guidelines frames env fs st = Inl RecursionError
         \<and> compare_guidelines frames env fs st old_guidelines = Inl RecursionError"
proof (induction frames arbitrary: old_guidelines)
  case 0
  show ?case by simp
next
  case (Suc frames)
  from guidelines_body_total [of env st] obtain guidelines
    where body: "guidelines_body env st = Inr guidelines" by blast
  from Suc.IH [of current] have cmp: "compare_guidelines frames env fs st current = Inl RecursionError"
    by simp
  from Suc.IH [of old_guidelines] have gen: "generate_updated_guidelines frames env fs st = Inl RecursionError"
    by simp
  from body assms cmp have "generate_updated_guidelines (Suc frames) env fs st = Inl RecursionError"
    by simp
  moreover from gen have "compare_guidelines (Suc frames) env fs st old_guidelines = Inl RecursionError"
    by simp
  ultimately show ?case by simp
qed

lemma generate_nonempty:
  assumes "generate_updated_guidelines frames env fs st = Inr guidelines"
  shows "guidelines \<noteq> []"
proof (cases frames)
  case 0
  with assms show ?thesis by simp
next
  case (Suc n)
  from guidelines_body_total [of env st] obtain body
    where body: "guidelines_body env st = Inr body" by blast
  show ?thesis
  proof (cases "load_current_guidelines fs st = None \<or> load_current_guidelines fs st = Some []")
    case True
    from generate_first_version [OF True body, of n] assms Suc
    have "guidelines = body @ first_version @ trailer" by simp
    with trailer_nonempty show ?thesis by simp
  next
    case False
    then obtain current where "load_current_guidelines fs st = Some current" "current \<noteq> []"
      by (cases "load_current_guidelines fs st") auto
    from generate_and_compare_fail [OF this, of frames env] assms show ?thesis by simp
  qed
qed

text \<open>
  C1. \<^verbatim>\<open>generate_updated_guidelines\<close> does not return a document when a previous
  guidelines file with some content exists: it calls \<^verbatim>\<open>_compare_guidelines\<close>, which
  calls \<^verbatim>\<open>generate_updated_guidelines\<close> again on the same instance and the same
  file, and so on until the frames are used up. Whatever the number of frames, the
  configuration, the metrics and the findings, the result is \<^verbatim>\<open>RecursionError\<close>.
  (Without a previous file, or with an empty one, it returns the document:
  \<open>generate_first_version\<close>.)
\<close>

theorem generation_raises_when_previous_document_exists:
  assumes "load_current_guidelines fs st = Some current" and "current \<noteq> []"
  shows "generate_updated_guidelines frames env fs st = Inl RecursionError"
  using generate_and_compare_fail [OF assms] by simp

text \<open>The theorem at a previous file that holds one line, with 1000 frames.\<close>

theorem generation_raises_when_previous_document_exists_witness:
  "load_current_guidelines
     (Map.empty([''/'', ''repo'', ''.claude'', ''guidelines'', ''src.md''] \<mapsto> ''# Coding Guidelines: src''))
     (init_refresher ''src'' [''/'', ''repo''] default_config) = Some ''# Coding Guidelines: src''
   \<and> ''# Coding Guidelines: src'' \<noteq> []
   \<and> generate_updated_guidelines 1000
        \<lparr> git_log = (\<lambda>days. None), gh_available = False, gh_pr_list = (\<lambda>limit. GhFailed),
          area_tree = None, now_guidelines = ''2024-05-01 10:00'', now_backup = ''20240501_100000'',
          now_report_name = ''20240501_100001'', now_report_date = ''2024-05-01 10:00:01'',
          recursion_limit = 1000 \<rparr>
        (Map.empty([''/'', ''repo'', ''.claude'', ''guidelines'', ''src.md''] \<mapsto> ''# Coding Guidelines: src''))
        (init_refresher ''src'' [''/'', ''repo''] default_config) = Inl RecursionError"
proof -
  let ?fs = "Map.empty([''/'', ''repo'', ''.claude'', ''guidelines'', ''src.md''] \<mapsto> ''# Coding Guidelines: src'')"
  let ?st = "init_refresher ''src'' [''/'', ''repo''] default_config"
  have path: "load_guidelines_path ?st = [''/'', ''repo'', ''.claude'', ''guidelines'', ''src.md'']"
    by code_simp
  have load: "load_current_guidelines ?fs ?st = Some ''# Coding Guidelines: src''"
    unfolding load_current_guidelines_def path by simp
  have ne: "''# Coding Guidelines: src'' \<noteq> []" by simp
  from generation_raises_when_previous_document_exists [OF load ne] load ne
  show ?thesis by simp
qed

subsection \<open>Two runs in succession\<close>

lemma report_text_nonempty: "report_text date st \<noteq> []"
  by (simp add: report_text_def)

lemma run_analysis_same_inputs:
  assumes "git_log env' = git_log env" and "gh_available env' = gh_available env"
    and "gh_pr_list env' = gh_pr_list env" and "area_tree env' = area_tree env"
  shows "run_analysis p env' st = run_analysis p env st"
  using assms by (simp add: run_analysis_def Let_def split: option.splits)

lemma analyze_git_history_frame:
  "area (analyze_git_history g st) = area st \<and> repo_root (analyze_git_history g st) = repo_root st
   \<and> config (analyze_git_history g st) = config st"
proof -
  have "area (fold commit_step cs s) = area s \<and> repo_root (fold commit_step cs s) = repo_root s
      \<and> config (fold commit_step cs s) = config s" for cs s
    by (induction cs arbitrary: s) (simp_all add: commit_step_def Let_def)
  then show ?thesis by (cases g) (simp_all add: analyze_git_history_def Let_def)
qed

lemma analyze_pr_reviews_frame:
  "area (analyze_pr_reviews av res st) = area st \<and> repo_root (analyze_pr_reviews av res st) = repo_root st
   \<and> config (analyze_pr_reviews av res st) = config st"
  by (cases res) (simp_all add: analyze_pr_reviews_def Let_def)

lemma analyze_file_patterns_frame:
  assumes "analyze_file_patterns tree st = Inr st'"
  shows "area st' = area st \<and> repo_root st' = repo_root st \<and> config st' = config st"
proof (cases tree)
  case None
  with assms show ?thesis by (simp add: analyze_file_patterns_None)
next
  case (Some es)
  with assms show ?thesis by (simp add: analyze_file_patterns_Some)
qed

lemma run_analysis_frame:
  assumes "run_analysis p env st = Inr st3"
  shows "area st3 = area st \<and> repo_root st3 = repo_root st \<and> config st3 = config st"
proof -
  from assms obtain d l where
    "analyze_file_patterns (area_tree env)
       (analyze_pr_reviews (gh_available env) (gh_pr_list env l) (analyze_git_history (git_log env d) st))
     = Inr st3"
    by (auto simp: run_analysis_def Let_def split: option.splits)
  from analyze_file_patterns_frame [OF this] show ?thesis
    by (simp add: analyze_pr_reviews_frame analyze_git_history_frame)
qed

lemma run_leaves_guidelines_file:
  assumes "run depth env fs st = Inr (fs1, res)"
  shows "\<exists>p st3 text. map_of (analysis_depth (config st)) depth = Some p
           \<and> run_analysis p env st = Inr st3
           \<and> load_current_guidelines fs1 st3 = Some text \<and> text \<noteq> []"
proof -
  from assms obtain p where p: "map_of (analysis_depth (config st)) depth = Some p"
    by (auto simp: run_def split: option.splits)
  with assms obtain st3 where st3: "run_analysis p env st = Inr st3"
    by (auto simp: run_def split: sum.splits)
  with assms p obtain guidelines
    where gen: "generate_updated_guidelines (recursion_limit env) env fs st3 = Inr guidelines"
    by (auto simp: run_def split: sum.splits)
  let ?saved = "save_guidelines env fs st3 guidelines"
  from assms p st3 gen have fs1: "fs1 = fst (generate_report env (fst ?saved) st3)"
    by (simp add: run_def Let_def)
  have ne: "guidelines \<noteq> []" using gen by (rule generate_nonempty)
  have written: "fst ?saved (save_guidelines_path st3) = Some guidelines"
    by (simp add: save_guidelines_def Let_def)
  have "\<exists>text. fs1 (save_guidelines_path st3) = Some text \<and> text \<noteq> []"
  proof (cases "report_path env st3 = save_guidelines_path st3")
    case True
    then show ?thesis by (simp add: fs1 generate_report_def report_text_nonempty)
  next
    case False
    with written ne show ?thesis by (simp add: fs1 generate_report_def)
  qed
  moreover have "load_current_guidelines fs1 st3 = fs1 (save_guidelines_path st3)"
    by (simp add: load_current_guidelines_def load_guidelines_path_parts save_guidelines_path_parts)
  ultimately show ?thesis using p st3 by auto
qed

lemma run_first_version:
  assumes p: "map_of (analysis_depth (config st)) depth = Some p"
    and d: "map_of p ''commit_days'' = Some d" and l: "map_of p ''pr_limit'' = Some l"
    and none: "fs (load_guidelines_path st) = None \<or> fs (load_guidelines_path st) = Some []"
    and frames: "recursion_limit env = Suc n"
  shows "\<exists>st3 body. run_analysis p env st = Inr st3 \<and> guidelines_body env st3 = Inr body
     \<and> run depth env fs st
         = Inr (fst (generate_report env
                      (fst (save_guidelines env fs st3 (body @ first_version @ trailer))) st3),
                \<lparr> guidelines_path = save_guidelines_path st3, report_file = report_path env st3,
                  final_state = st3 \<rparr>)"
proof -
  from analyze_file_patterns_total obtain st3 where
    "analyze_file_patterns (area_tree env)
       (analyze_pr_reviews (gh_available env) (gh_pr_list env l) (analyze_git_history (git_log env d) st))
     = Inr st3" by blast
  with d l have st3: "run_analysis p env st = Inr st3"
    by (simp add: run_analysis_def)
  from run_analysis_frame [OF st3] have "load_guidelines_path st3 = load_guidelines_path st"
    by (simp add: load_guidelines_path_parts)
  with none have none3: "load_current_guidelines fs st3 = None \<or> load_current_guidelines fs st3 = Some []"
    by (simp add: load_current_guidelines_def)
  from guidelines_body_total obtain body where body: "guidelines_body env st3 = Inr body" by blast
  from generate_first_version [OF none3 body, of n] frames
  have gen: "generate_updated_guidelines (recursion_limit env) env fs st3
      = Inr (body @ first_version @ trailer)" by simp
  have "run depth env fs st
         = Inr (fst (generate_report env
                      (fst (save_guidelines env fs st3 (body @ first_version @ trailer))) st3),
                \<lparr> guidelines_path = save_guidelines_path st3, report_file = report_path env st3,
                  final_state = st3 \<rparr>)"
    using p st3 gen by (simp add: run_def Let_def save_guidelines_def generate_report_def)
  with st3 body show ?thesis by blast
qed

text \<open>
  C2. After a run that completed, a second run on the file system the first one left,
  with the same instance data, the same history, review data and file tree and any
  clock, does not complete: the first run wrote a non-empty guidelines file, so the
  second run's \<^verbatim>\<open>generate_updated_guidelines\<close> raises \<^verbatim>\<open>RecursionError\<close>, before
  \<^verbatim>\<open>save_guidelines\<close> (no backup is made) and before \<^verbatim>\<open>generate_report\<close> (no
  second report is written).
\<close>

theorem second_run_raises_recursion_error:
  assumes "run depth env fs st = Inr (fs1, res)"
  shows "run depth
           (env\<lparr>now_guidelines := tg, now_backup := tb, now_report_name := tn, now_report_date := td,
                recursion_limit := frames\<rparr>)
           fs1 st = Inl RecursionError"
proof -
  let ?env2 = "env\<lparr>now_guidelines := tg, now_backup := tb, now_report_name := tn,
                   now_report_date := td, recursion_limit := frames\<rparr>"
  from run_leaves_guidelines_file [OF assms] obtain p st3 prev
    where p: "map_of (analysis_depth (config st)) depth = Some p"
      and st3: "run_analysis p env st = Inr st3"
      and load: "load_current_guidelines fs1 st3 = Some prev" and ne: "prev \<noteq> []"
    by blast
  have "run_analysis p ?env2 st = run_analysis p env st"
    by (rule run_analysis_same_inputs) simp_all
  with st3 have st3': "run_analysis p ?env2 st = Inr st3" by simp
  have "generate_updated_guidelines frames ?env2 fs1 st3 = Inl RecursionError"
    using load ne by (rule generate_and_compare_fail [THEN conjunct1])
  with p st3' show ?thesis by (simp add: run_def)
qed

text \<open>The theorem at a first run on an empty file system.\<close>

theorem second_run_raises_recursion_error_witness:
  "\<exists>fs1 res.
     run ''standard''
       \<lparr> git_log = (\<lambda>days. Some ''abc123 fix react tests''), gh_available = False,
         gh_pr_list = (\<lambda>limit. GhFailed), area_tree = None,
         now_guidelines = ''2024-05-01 10:00'', now_backup = ''20240501_100000'',
         now_report_name = ''20240501_100001'', now_report_date = ''2024-05-01 10:00:01'',
         recursion_limit = 1000 \<rparr>
       Map.empty (init_refresher ''src'' [''/'', ''repo''] default_config) = Inr (fs1, res)
     \<and> run ''standard''
         \<lparr> git_log = (\<lambda>days. Some ''abc123 fix react tests''), gh_available = False,
           gh_pr_list = (\<lambda>limit. GhFailed), area_tree = None,
           now_guidelines = ''2024-05-01 10:05'', now_backup = ''20240501_100500'',
           now_report_name = ''20240501_100501'', now_report_date = ''2024-05-01 10:05:01'',
           recursion_limit = 1000 \<rparr>
         fs1 (init_refresher ''src'' [''/'', ''repo''] default_config) = Inl RecursionError"
proof -
  let ?env = "\<lparr> git_log = (\<lambda>days. Some ''abc123 fix react tests''), gh_available = False,
         gh_pr_list = (\<lambda>limit. GhFailed), area_tree = None,
         now_guidelines = ''2024-05-01 10:00'', now_backup = ''20240501_100000'',
         now_report_name = ''20240501_100001'', now_report_date = ''2024-05-01 10:00:01'',
         recursion_limit = 1000 \<rparr>"
  let ?st = "init_refresher ''src'' [''/'', ''repo''] default_config"
  have p: "map_of (analysis_depth (config ?st)) ''standard''
      = Some [(''pr_limit'', 50), (''commit_days'', 90), (''min_pattern_frequency'', 5)]"
    by (simp add: init_refresher_def default_config_def)
  have d: "map_of [(''pr_limit'', 50), (''commit_days'', 90), (''min_pattern_frequency'', 5)] ''commit_days''
      = Some (90::int)" by simp
  have l: "map_of [(''pr_limit'', 50), (''commit_days'', 90), (''min_pattern_frequency'', 5)] ''pr_limit''
      = Some (50::int)" by simp
  have none: "Map.empty (load_guidelines_path ?st) = None \<or> Map.empty (load_guidelines_path ?st) = Some []"
    by simp
  have frames: "recursion_limit ?env = Suc 999" by simp
  from run_first_version [OF p d l none frames] obtain fs1 res
    where first: "run ''standard'' ?env Map.empty ?st = Inr (fs1, res)" by blast
  from second_run_raises_recursion_error [OF first, where tg = "''2024-05-01 10:05''"
      and tb = "''20240501_100500''" and tn = "''20240501_100501''"
      and td = "''2024-05-01 10:05:01''" and frames = 1000]
  have "run ''standard''
         \<lparr> git_log = (\<lambda>days. Some ''abc123 fix react tests''), gh_available = False,
           gh_pr_list = (\<lambda>limit. GhFailed), area_tree = None,
           now_guidelines = ''2024-05-01 10:05'', now_backup = ''20240501_100500'',
           now_report_name = ''20240501_100501'', now_report_date = ''2024-05-01 10:05:01'',
           recursion_limit = 1000 \<rparr>
         fs1 ?st = Inl RecursionError" by simp
  with first show ?thesis by blast
qed

subsection \<open>The lines of the rendered text\<close>

lemma split_on_append_sep: "split_on c (a @ c # b) = split_on c a @ split_on c b"
proof (induction a)
  case Nil
  show ?case by simp
next
  case (Cons x a)
  obtain w ws where ws: "split_on c a = w # ws"
    using split_on_nonempty [of c a] by (cases "split_on c a") auto
  with Cons show ?case by simp
qed

lemma h2_titles_Nil: "h2_titles [] = []"
  by (simp add: h2_titles_def is_h2_line_def)

lemma h2_titles_append:
  assumes "ends_line s"
  shows "h2_titles (s @ r) = h2_titles s @ h2_titles r"
proof (cases "s = []")
  case True
  then show ?thesis by (simp add: h2_titles_Nil)
next
  case False
  with assms have "last s = CHR 0x0A" by (simp add: ends_line_def)
  with False have s: "s = butlast s @ [CHR 0x0A]" by (metis append_butlast_last_id)
  have a: "split_on CHR 0x0A (s @ r) = split_on CHR 0x0A (butlast s) @ split_on CHR 0x0A r"
    by (subst s) (simp add: split_on_append_sep)
  have b: "split_on CHR 0x0A s = split_on CHR 0x0A (butlast s) @ [[]]"
    by (subst s) (simp add: split_on_append_sep)
  show ?thesis by (simp add: h2_titles_def a b is_h2_line_def)
qed

lemma ends_line_Nil: "ends_line []"
  by (simp add: ends_line_def)

lemma ends_line_append: "ends_line a \<Longrightarrow> ends_line b \<Longrightarrow> ends_line (a @ b)"
  by (cases "b = []") (auto simp: ends_line_def)

lemma ends_line_nl: "ends_line (s @ ''\<newline>'')"
  by (simp add: ends_line_def)

lemma no_h2_Nil: "no_h2 []"
  by (simp add: no_h2_def ends_line_def h2_titles_Nil)

lemma no_h2_append: "no_h2 a \<Longrightarrow> no_h2 b \<Longrightarrow> no_h2 (a @ b)"
  by (simp add: no_h2_def ends_line_append h2_titles_append)

lemma no_h2_concat: "list_all (\<lambda>x. no_h2 (f x)) xs \<Longrightarrow> no_h2 (concat (map f xs))"
  by (induction xs) (simp_all add: no_h2_Nil no_h2_append)

lemma split_on_line: "nl_free l \<Longrightarrow> split_on CHR 0x0A (l @ ''\<newline>'') = [l, []]"
  by (simp add: nl_free_def split_on_append_free)

lemma no_h2_line:
  assumes "nl_free l" and "\<not> startswith l ''## ''"
  shows "no_h2 (l @ ''\<newline>'')"
  using assms by (simp add: no_h2_def ends_line_def h2_titles_def split_on_line is_h2_line_def)

lemma h2_titles_heading:
  assumes "nl_free t" and "t \<noteq> []"
  shows "h2_titles (''## '' @ t @ ''\<newline>'') = [t]"
proof -
  have "nl_free (''## '' @ t)" using assms by (simp add: nl_free_def)
  then have "split_on CHR 0x0A ((''## '' @ t) @ ''\<newline>'') = [''## '' @ t, []]"
    by (rule split_on_line)
  with assms show ?thesis by (simp add: h2_titles_def is_h2_line_def)
qed

lemma no_h2_blank: "no_h2 ''\<newline>''"
  using no_h2_line [of "[]"] by (simp add: nl_free_def)

text \<open>A section: its heading, then a block without headings.\<close>

lemma h2_titles_section:
  assumes "nl_free t" and "t \<noteq> []" and "no_h2 block"
  shows "h2_titles (''## '' @ t @ ''\<newline>'' @ block) = [t]"
    and "ends_line (''## '' @ t @ ''\<newline>'' @ block)"
proof -
  have e: "ends_line (''## '' @ t @ ''\<newline>'')"
    using ends_line_nl [of "''## '' @ t"] by simp
  have h: "h2_titles (''## '' @ t @ ''\<newline>'') = [t]"
    using assms(1,2) by (rule h2_titles_heading)
  from assms(3) have nb: "h2_titles block = []" by (simp add: no_h2_def)
  have "h2_titles (''## '' @ t @ ''\<newline>'' @ block) = h2_titles ((''## '' @ t @ ''\<newline>'') @ block)"
    by simp
  also have "\<dots> = h2_titles (''## '' @ t @ ''\<newline>'') @ h2_titles block"
    using e by (rule h2_titles_append)
  also have "\<dots> = [t] @ []" by (simp only: h nb)
  finally show "h2_titles (''## '' @ t @ ''\<newline>'' @ block) = [t]" by simp
  from assms(3) have "ends_line block" by (simp add: no_h2_def)
  with e have "ends_line ((''## '' @ t @ ''\<newline>'') @ block)" by (rule ends_line_append)
  then show "ends_line (''## '' @ t @ ''\<newline>'' @ block)" by simp
qed

text \<open>Texts without line breaks.\<close>

lemma of_char_char_of_small: "n < 256 \<Longrightarrow> of_char (char_of n) = (n::nat)"
  by simp

lemma digit_char_not_nl: "d < 10 \<Longrightarrow> digit_char d \<noteq> CHR 0x0A"
proof
  assume d: "d < 10" and "digit_char d = CHR 0x0A"
  then have "(of_char (char_of (48 + d)) :: nat) = of_char CHR 0x0A" by (simp add: digit_char_def)
  with d show False by simp
qed

lemma digit_char_not_hash: "d < 10 \<Longrightarrow> digit_char d \<noteq> CHR ''#''"
proof
  assume d: "d < 10" and "digit_char d = CHR ''#''"
  then have "(of_char (char_of (48 + d)) :: nat) = of_char CHR ''#''" by (simp add: digit_char_def)
  with d show False by simp
qed

lemma str_nat_chars: "c \<in> set (str_nat n) \<Longrightarrow> c \<noteq> CHR 0x0A"
proof (induction n rule: str_nat.induct)
  case (1 n)
  show ?case
  proof (cases "n < 10")
    case True
    with "1.prems" have "c = digit_char n" by (simp add: str_nat.simps [of n])
    with True show ?thesis by (simp add: digit_char_not_nl)
  next
    case False
    with "1.prems" consider "c \<in> set (str_nat (n div 10))" | "c = digit_char (n mod 10)"
      by (auto simp: str_nat.simps [of n])
    then show ?thesis
    proof cases
      case 1
      with False "1.IH" show ?thesis by simp
    next
      case 2
      then show ?thesis by (simp add: digit_char_not_nl)
    qed
  qed
qed

lemma str_nat_nonempty: "str_nat n \<noteq> []"
  by (subst str_nat.simps) simp

lemma hd_str_nat: "hd (str_nat n) \<noteq> CHR ''#''"
proof (induction n rule: str_nat.induct)
  case (1 n)
  show ?case
  proof (cases "n < 10")
    case True
    then show ?thesis by (simp add: str_nat.simps [of n] digit_char_not_hash)
  next
    case False
    with "1.IH" show ?thesis by (simp add: str_nat.simps [of n] str_nat_nonempty)
  qed
qed

lemma nl_free_str_int: "nl_free (str_int i)"
  using str_nat_chars by (auto simp: nl_free_def str_int_def)

lemma str_int_not_heading: "\<not> startswith (str_int i @ r) (CHR ''#'' # p)"
proof (cases "i < 0")
  case True
  then show ?thesis by (simp add: str_int_def)
next
  case False
  obtain c cs where s: "str_nat (nat i) = c # cs"
    using str_nat_nonempty [of "nat i"] by (cases "str_nat (nat i)") auto
  with hd_str_nat [of "nat i"] have "c \<noteq> CHR ''#''" by simp
  with False s show ?thesis by (simp add: str_int_def)
qed

lemma no_h2_lines:
  assumes "list_all (\<lambda>l. nl_free l \<and> \<not> startswith l ''## '') ls"
  shows "no_h2 (concat (map (\<lambda>l. l @ ''\<newline>'') ls))"
proof (rule no_h2_concat)
  show "list_all (\<lambda>l. no_h2 (l @ ''\<newline>'')) ls"
    using assms unfolding list_all_iff by (auto intro: no_h2_line)
qed

lemma nl_free_append [simp]: "nl_free (a @ b) \<longleftrightarrow> nl_free a \<and> nl_free b"
  by (auto simp: nl_free_def)

lemma nl_free_Nil [simp]: "nl_free []"
  by (simp add: nl_free_def)

lemma nl_free_Cons [simp]: "nl_free (c # s) \<longleftrightarrow> c \<noteq> CHR 0x0A \<and> nl_free s"
  by (auto simp: nl_free_def)

lemma nl_free_subset: "set a \<subseteq> set b \<Longrightarrow> nl_free b \<Longrightarrow> nl_free a"
  by (auto simp: nl_free_def)

lemma nl_free_take: "nl_free s \<Longrightarrow> nl_free (take n s)"
  by (rule nl_free_subset [OF set_take_subset])

lemma hex_digit_not_nl: "d < 16 \<Longrightarrow> hex_digit d \<noteq> CHR 0x0A"
proof
  assume d: "d < 16" and h: "hex_digit d = CHR 0x0A"
  show False
  proof (cases "d < 10")
    case True
    with h have "(of_char (char_of (48 + d)) :: nat) = of_char CHR 0x0A" by (simp add: hex_digit_def)
    with True show False by simp
  next
    case False
    with h have "(of_char (char_of (87 + d)) :: nat) = of_char CHR 0x0A" by (simp add: hex_digit_def)
    with d show False by simp
  qed
qed

lemma nl_free_repr_char:
  assumes "quote \<noteq> CHR 0x0A"
  shows "nl_free (repr_char quote c)"
proof -
  have d: "hex_digit ((of_char c :: nat) div 16) \<noteq> CHR 0x0A"
    by (rule hex_digit_not_nl) (rule less_mult_imp_div_less, simp)
  have m: "hex_digit ((of_char c :: nat) mod 16) \<noteq> CHR 0x0A"
    by (rule hex_digit_not_nl) simp
  show ?thesis
  proof (cases "c = CHR 0x0A")
    case True
    with assms show ?thesis by (auto simp: repr_char_def)
  next
    case False
    with assms d m show ?thesis by (simp add: repr_char_def)
  qed
qed

lemma nl_free_concat: "list_all nl_free xs \<Longrightarrow> nl_free (concat xs)"
  by (induction xs) simp_all

lemma nl_free_py_repr: "nl_free (py_repr s)"
proof -
  have "nl_free (concat (map (repr_char q) s))" if "q \<noteq> CHR 0x0A" for q
    using that by (intro nl_free_concat) (simp add: list_all_iff nl_free_repr_char)
  then show ?thesis by (simp add: py_repr_def Let_def)
qed

lemma nl_free_py_join: "nl_free sep \<Longrightarrow> list_all nl_free xs \<Longrightarrow> nl_free (py_join sep xs)"
  by (induction sep xs rule: py_join.induct) (simp_all)

lemma nl_free_repr_preset: "nl_free (repr_preset p)"
  by (simp add: repr_preset_def nl_free_py_join list_all_iff nl_free_py_repr nl_free_str_int)

lemma nl_free_repr_analysis_depth: "nl_free (repr_analysis_depth d)"
  by (simp add: repr_analysis_depth_def nl_free_py_join list_all_iff nl_free_py_repr nl_free_repr_preset)

lemma upper_c_not_nl: "c \<noteq> CHR 0x0A \<Longrightarrow> upper_c c \<noteq> CHR 0x0A"
proof
  assume c: "c \<noteq> CHR 0x0A" and u: "upper_c c = CHR 0x0A"
  show False
  proof (cases "is_lower_c c")
    case True
    with u have "(of_char (char_of ((of_char c :: nat) - 32)) :: nat) = of_char CHR 0x0A"
      by (simp add: upper_c_def)
    then have m: "((of_char c :: nat) - 32) mod 256 = 10" by simp
    have "(of_char c :: nat) - 32 < 256"
      using nat_of_char_less_256 [of c] by linarith
    with m have "(of_char c :: nat) - 32 = 10" by simp
    with True show False unfolding is_lower_c_def by linarith
  next
    case False
    with u c show False by (simp add: upper_c_def)
  qed
qed

lemma lower_c_not_nl: "c \<noteq> CHR 0x0A \<Longrightarrow> lower_c c \<noteq> CHR 0x0A"
proof
  assume c: "c \<noteq> CHR 0x0A" and u: "lower_c c = CHR 0x0A"
  show False
  proof (cases "is_upper_c c")
    case True
    with u have "(of_char (char_of ((of_char c :: nat) + 32)) :: nat) = of_char CHR 0x0A"
      by (simp add: lower_c_def)
    then have m: "((of_char c :: nat) + 32) mod 256 = 10" by simp
    from True have "(of_char c :: nat) + 32 < 256" unfolding is_upper_c_def by linarith
    with m have "(of_char c :: nat) + 32 = 10" by simp
    then show False by linarith
  next
    case False
    with u c show False by (simp add: lower_c_def)
  qed
qed

lemma nl_free_title_from: "nl_free s \<Longrightarrow> nl_free (title_from b s)"
  by (induction b s rule: title_from.induct) (simp_all add: upper_c_not_nl lower_c_not_nl)

lemma nl_free_py_title: "nl_free s \<Longrightarrow> nl_free (py_title s)"
  by (simp add: py_title_def nl_free_title_from)

lemma nl_free_drop: "nl_free s \<Longrightarrow> nl_free (drop n s)"
  by (rule nl_free_subset [OF set_drop_subset])

lemma nl_free_py_replace: "nl_free new \<Longrightarrow> nl_free s \<Longrightarrow> nl_free (py_replace old new s)"
proof (induction old new s rule: py_replace.induct)
  case (1 old new)
  show ?case by simp
next
  case (2 old new c cs)
  show ?case
  proof (cases "old \<noteq> [] \<and> startswith (c # cs) old")
    case True
    then have eq: "py_replace old new (c # cs) = new @ py_replace old new (drop (length old) (c # cs))"
      unfolding py_replace.simps by (rule if_P)
    from "2.prems" have "nl_free (drop (length old) (c # cs))" by (intro nl_free_drop)
    with True "2.IH"(1) "2.prems" have "nl_free (py_replace old new (drop (length old) (c # cs)))"
      by (blast)
    with "2.prems" show ?thesis by (simp only: eq nl_free_append simp_thms)
  next
    case False
    then have eq: "py_replace old new (c # cs) = c # py_replace old new cs"
      unfolding py_replace.simps by (rule if_not_P)
    from "2.prems" have "c \<noteq> CHR 0x0A" and "nl_free cs" by simp_all
    with False "2.IH"(2) "2.prems" have "nl_free (py_replace old new cs)" by (blast)
    with \<open>c \<noteq> CHR 0x0A\<close> show ?thesis by (simp only: eq nl_free_Cons simp_thms)
  qed
qed

lemma nl_free_flatten: "nl_free (py_replace ''\<newline>'' '' '' s)"
  by (auto simp: py_replace_char nl_free_def)

lemma nl_free_py_strip: "nl_free s \<Longrightarrow> nl_free (py_strip s)"
proof (rule nl_free_subset)
  show "set (py_strip s) \<subseteq> set s"
  proof
    fix x
    assume "x \<in> set (py_strip s)"
    then have "x \<in> set (dropWhile is_space_c (rev (dropWhile is_space_c s)))"
      by (simp add: py_strip_def)
    then have "x \<in> set (rev (dropWhile is_space_c s))" by (rule set_dropWhileD)
    then have "x \<in> set (dropWhile is_space_c s)" by simp
    then show "x \<in> set s" by (rule set_dropWhileD)
  qed
qed




lemma nl_free_keys_Nil [simp]: "nl_free_keys []"
  by (simp add: nl_free_keys_def)

lemma nl_free_keys_iff: "nl_free_keys d \<longleftrightarrow> (\<forall>kv \<in> set d. nl_free (fst kv))"
  by (simp add: nl_free_keys_def list_all_iff)

lemma nl_free_keys_subset: "set a \<subseteq> set b \<Longrightarrow> nl_free_keys b \<Longrightarrow> nl_free_keys a"
  by (auto simp: nl_free_keys_iff)

lemma nl_free_keys_take: "nl_free_keys d \<Longrightarrow> nl_free_keys (take n d)"
  by (rule nl_free_keys_subset [OF set_take_subset])

lemma nl_free_keys_sorted: "nl_free_keys d \<Longrightarrow> nl_free_keys (sorted_by_count_desc d)"
  by (simp add: nl_free_keys_iff sorted_by_count_desc_def)




text \<open>Texts with known headings.\<close>

lemma titled_Nil: "titled [] []"
  by (simp add: titled_def ends_line_Nil h2_titles_Nil)

lemma titled_no_h2: "no_h2 s \<Longrightarrow> titled s []"
  by (simp add: titled_def no_h2_def)

lemma titled_append: "titled a ta \<Longrightarrow> titled b tb \<Longrightarrow> titled (a @ b) (ta @ tb)"
  by (simp add: titled_def ends_line_append h2_titles_append)

lemma titled_section:
  assumes "nl_free t" and "t \<noteq> []" and "no_h2 block"
  shows "titled (''## '' @ t @ ''\<newline>'' @ block) [t]"
  using h2_titles_section [OF assms] by (simp only: titled_def)

lemma titled_after:
  assumes "no_h2 a" and "titled b tb"
  shows "titled (a @ b) tb"
  using titled_append [OF titled_no_h2 [OF assms(1)] assms(2)] by simp

text \<open>The header.\<close>

lemma titled_header:
  assumes "nl_free (area st)" and "nl_free now"
  shows "titled (render_header now st) [''Analysis Summary'']"
proof -
  let ?top = "concat (map (\<lambda>l. l @ ''\<newline>'')
     [''# Coding Guidelines: '' @ area st, [],
      ''**Last Updated:** '' @ now,
      ''**Auto-generated by:** Guideline Refresher Skill'',
      ''**Analysis Period:** '' @ repr_analysis_depth (analysis_depth (config st)) @ '' configuration'',
      []])"
  let ?block = "concat (map (\<lambda>l. l @ ''\<newline>'')
     [[],
      ''- **Total commits analyzed:** '' @ str_int (dict_get (metrics st) ''total_commits'' 0),
      ''- **Relevant PRs reviewed:** '' @ str_int (dict_get (metrics st) ''relevant_prs'' 0),
      ''- **Files in area:** '' @ str_int (dict_get (metrics st) ''total_files'' 0),
      []])"
  have form: "render_header now st = ?top @ (''## '' @ ''Analysis Summary'' @ ''\<newline>'' @ ?block)"
    by (simp add: render_header_def)
  have top: "no_h2 ?top"
    using assms by (intro no_h2_lines) (simp add: nl_free_repr_analysis_depth)
  have block: "no_h2 ?block"
    by (intro no_h2_lines) (simp add: nl_free_str_int)
  have "titled (''## '' @ ''Analysis Summary'' @ ''\<newline>'' @ ?block) [''Analysis Summary'']"
    by (rule titled_section [OF _ _ block]) simp_all
  with top show ?thesis unfolding form by (rule titled_after)
qed

text \<open>Technology Focus.\<close>

lemma no_h2_tech_line: "nl_free (fst tc) \<Longrightarrow> no_h2 (tech_line tc)"
proof (cases "3 \<le> snd tc")
  case False
  then show ?thesis by (simp add: tech_line_def no_h2_Nil)
next
  case True
  assume nf: "nl_free (fst tc)"
  have "no_h2 ((''- **'' @ py_title (fst tc) @ ''**: '' @ str_int (snd tc) @ '' commits'') @ ''\<newline>'')"
    using nf by (intro no_h2_line) (simp_all add: nl_free_py_title nl_free_str_int)
  with True show ?thesis by (simp add: tech_line_def)
qed

lemma nl_free_keys_tech_metrics: "nl_free_keys m \<Longrightarrow> nl_free_keys (tech_metrics m)"
  by (auto simp: nl_free_keys_iff tech_metrics_def nl_free_py_replace)

lemma titled_tech_focus:
  assumes "nl_free_keys (metrics st)"
  shows "titled (render_tech_focus st)
           (if tech_metrics (metrics st) \<noteq> [] then [''Technology Focus''] else [])"
proof (cases "tech_metrics (metrics st) \<noteq> []")
  case False
  then show ?thesis by (simp add: render_tech_focus_def titled_Nil)
next
  case True
  let ?lines = "concat (map tech_line (sorted_by_count_desc (tech_metrics (metrics st))))"
  let ?block = "concat (map (\<lambda>l. l @ ''\<newline>'') [[], ''Based on commit message analysis:'', []])
                @ ?lines @ ''\<newline>''"
  have form: "render_tech_focus st = ''## '' @ ''Technology Focus'' @ ''\<newline>'' @ ?block"
    using True by (simp add: render_tech_focus_def)
  have "nl_free_keys (sorted_by_count_desc (tech_metrics (metrics st)))"
    using assms by (intro nl_free_keys_sorted nl_free_keys_tech_metrics)
  then have "list_all (\<lambda>tc. no_h2 (tech_line tc)) (sorted_by_count_desc (tech_metrics (metrics st)))"
    by (simp add: nl_free_keys_iff list_all_iff no_h2_tech_line)
  then have lines: "no_h2 ?lines" by (rule no_h2_concat)
  have intro: "no_h2 (concat (map (\<lambda>l. l @ ''\<newline>'') [[], ''Based on commit message analysis:'', []]))"
    by (intro no_h2_lines) simp
  have block: "no_h2 ?block"
    by (intro no_h2_append intro lines no_h2_blank)
  have "titled (''## '' @ ''Technology Focus'' @ ''\<newline>'' @ ?block) [''Technology Focus'']"
    by (rule titled_section [OF _ _ block]) simp_all
  with True show ?thesis by (simp only: form if_True simp_thms)
qed


text \<open>File Organization.\<close>

lemma nl_free_format_1f: "nl_free (format_1f x)"
proof -
  have "nat (tenths x mod 10) < 10" by simp
  then have "digit_char (nat (tenths x mod 10)) \<noteq> CHR 0x0A" by (rule digit_char_not_nl)
  moreover have "nl_free (str_nat n)" for n
    using str_nat_chars by (auto simp: nl_free_def)
  ultimately show ?thesis by (simp add: format_1f_def)
qed

lemma no_h2_file_type_lines:
  "file_type_lines whole ft = Inr ls \<Longrightarrow> nl_free_keys ft \<Longrightarrow> no_h2 ls"
proof (induction ft arbitrary: ls)
  case Nil
  then show ?case by (simp add: no_h2_Nil)
next
  case (Cons fc rest)
  from file_type_lines_total obtain below where below: "file_type_lines whole rest = Inr below"
    by blast
  from Cons.prems(2) have k: "nl_free (fst fc)" and r: "nl_free_keys rest"
    by (simp_all add: nl_free_keys_def)
  from Cons.IH [OF below r] have b: "no_h2 below" .
  let ?p = "if 0 < whole then float_mul (round_double (of_int (snd fc) / of_int whole)) 100 else 0"
  let ?l = "''- `'' @ fst fc @ ''`: '' @ str_int (snd fc) @ '' files ('' @ format_1f ?p @ ''%)''"
  from Cons.prems(1) below have ls: "ls = (?l @ ''\<newline>'') @ below"
    by (simp add: percentage_eq)
  have "no_h2 (?l @ ''\<newline>'')"
    using k by (intro no_h2_line) (simp_all add: nl_free_str_int nl_free_format_1f)
  from this b show ?case unfolding ls by (rule no_h2_append)
qed

lemma titled_file_organization:
  assumes keys: "case file_types (findings st) of None \<Rightarrow> True | Some ft \<Rightarrow> nl_free_keys ft"
    and r: "render_file_organization st = Inr t"
  shows "titled t (if file_types (findings st) = None \<or> file_types (findings st) = Some []
                   then [] else [''File Organization''])"
proof (cases "file_types (findings st) = None \<or> file_types (findings st) = Some []")
  case True
  with r have "t = []" by (auto simp: render_file_organization_def)
  with True show ?thesis by (simp only: if_True titled_Nil)
next
  case False
  then obtain ft where ft: "file_types (findings st) = Some ft" "ft \<noteq> []" by auto
  from file_type_lines_total obtain ls
    where ls: "file_type_lines (dict_get (metrics st) ''total_files'' 0) (take 5 ft) = Inr ls"
    by blast
  from keys ft have "nl_free_keys (take 5 ft)" by (simp add: nl_free_keys_take)
  with ls have lines: "no_h2 ls" by (rule no_h2_file_type_lines)
  let ?block = "concat (map (\<lambda>l. l @ ''\<newline>'') [[], ''**Primary file types:**'', []]) @ ls @ ''\<newline>''"
  from r ft ls have form: "t = ''## '' @ ''File Organization'' @ ''\<newline>'' @ ?block"
    by (simp add: render_file_organization_def)
  have intro: "no_h2 (concat (map (\<lambda>l. l @ ''\<newline>'') [[], ''**Primary file types:**'', []]))"
    by (intro no_h2_lines) simp
  have block: "no_h2 ?block"
    by (intro no_h2_append intro lines no_h2_blank)
  have "titled (''## '' @ ''File Organization'' @ ''\<newline>'' @ ?block) [''File Organization'']"
    by (rule titled_section [OF _ _ block]) simp_all
  with False show ?thesis by (simp only: form if_False)
qed

text \<open>Naming Conventions.\<close>

lemma no_h2_naming_lines:
  "naming_lines whole nc = Inr ls \<Longrightarrow> nl_free_keys nc \<Longrightarrow> no_h2 ls"
proof (induction nc arbitrary: ls)
  case Nil
  then show ?case by (simp add: no_h2_Nil)
next
  case (Cons pc rest)
  from naming_lines_total obtain below where below: "naming_lines whole rest = Inr below"
    by blast
  from Cons.prems(2) have k: "nl_free (fst pc)" and r: "nl_free_keys rest"
    by (simp_all add: nl_free_keys_def)
  from Cons.IH [OF below r] have b: "no_h2 below" .
  let ?p = "if 0 < whole then float_mul (round_double (of_int (snd pc) / of_int whole)) 100 else 0"
  let ?l = "''- **'' @ fst pc @ ''**: '' @ str_int (snd pc) @ '' files ('' @ format_1f ?p @ ''%)''"
  from Cons.prems(1) below have ls: "ls = (?l @ ''\<newline>'') @ below"
    by (simp add: percentage_eq)
  have "no_h2 (?l @ ''\<newline>'')"
    using k by (intro no_h2_line) (simp_all add: nl_free_str_int nl_free_format_1f)
  from this b show ?case unfolding ls by (rule no_h2_append)
qed

lemma max_item_mem: "max_item best d \<in> insert best (set d)"
  by (induction d arbitrary: best) (auto split: if_splits)

lemma titled_naming:
  assumes keys: "case naming_conventions (findings st) of None \<Rightarrow> True | Some nc \<Rightarrow> nl_free_keys nc"
    and r: "render_naming st = Inr t"
  shows "titled t (if naming_conventions (findings st) = None \<or> naming_conventions (findings st) = Some []
                   then [] else [''Naming Conventions''])"
proof (cases "naming_conventions (findings st) = None \<or> naming_conventions (findings st) = Some []")
  case True
  with r have "t = []" by (auto simp: render_naming_def)
  with True show ?thesis by (simp only: if_True titled_Nil)
next
  case False
  then obtain nc where nc: "naming_conventions (findings st) = Some nc" "nc \<noteq> []" by auto
  from naming_lines_total obtain ls
    where ls: "naming_lines (sum_list (map snd nc)) (sorted_by_count_desc nc) = Inr ls"
    by blast
  from keys nc have nk: "nl_free_keys nc" by simp
  then have "nl_free_keys (sorted_by_count_desc nc)" by (rule nl_free_keys_sorted)
  with ls have lines: "no_h2 ls" by (rule no_h2_naming_lines)
  let ?dominant = "max_item (hd nc) (tl nc)"
  from nc(2) have "?dominant \<in> set nc"
    using max_item_mem [of "hd nc" "tl nc"] by (cases nc) auto
  with nk have dk: "nl_free (fst ?dominant)" by (simp add: nl_free_keys_iff)
  let ?rec = "concat (map (\<lambda>l. l @ ''\<newline>'')
     [[], ''**Recommendation:** Follow `'' @ fst ?dominant @ ''` pattern (dominant in ''
          @ str_int (snd ?dominant) @ '' files)'', []])"
  let ?block = "concat (map (\<lambda>l. l @ ''\<newline>'') [[], ''**Observed naming patterns:**'', []]) @ ls @ ?rec"
  from r nc ls have form: "t = ''## '' @ ''Naming Conventions'' @ ''\<newline>'' @ ?block"
    by (simp add: render_naming_def Let_def)
  have intro: "no_h2 (concat (map (\<lambda>l. l @ ''\<newline>'') [[], ''**Observed naming patterns:**'', []]))"
    by (intro no_h2_lines) simp
  have recm: "no_h2 ?rec"
    using dk by (intro no_h2_lines) (simp add: nl_free_str_int)
  have block: "no_h2 ?block"
    by (intro no_h2_append intro lines recm)
  have "titled (''## '' @ ''Naming Conventions'' @ ''\<newline>'' @ ?block) [''Naming Conventions'']"
    by (rule titled_section [OF _ _ block]) simp_all
  with False show ?thesis by (simp only: form if_False)
qed

text \<open>Code Review Focus Areas.\<close>

lemma no_h2_review_theme_block:
  assumes "nl_free (fst tc)"
  shows "no_h2 (review_theme_block fb tc)"
proof -
  let ?head = "concat (map (\<lambda>l. l @ ''\<newline>'')
     [''### '' @ py_title (py_replace ''_'' '' '' (fst tc)) @ '' ('' @ str_int (snd tc) @ '' mentions)'', []])"
  have head: "no_h2 ?head"
    using assms by (intro no_h2_lines) (simp add: nl_free_py_title nl_free_py_replace nl_free_str_int)
  show ?thesis
  proof (cases "map_of fb (fst tc @ ''_feedback'') = None \<or> map_of fb (fst tc @ ''_feedback'') = Some []")
    case True
    then have "review_theme_block fb tc = ?head"
      by (auto simp: review_theme_block_def)
    with head show ?thesis by simp
  next
    case False
    then obtain samples where s: "map_of fb (fst tc @ ''_feedback'') = Some samples" "samples \<noteq> []"
      by auto
    let ?sample = "py_strip (py_replace ''\<newline>'' '' '' (hd samples))"
    let ?shown = "if 200 < length ?sample then take 200 ?sample @ ''...'' else ?sample"
    let ?quote = "concat (map (\<lambda>l. l @ ''\<newline>'')
       [''Example feedback: '' @ [CHR 0x22] @ ?shown @ [CHR 0x22], []])"
    have "nl_free ?sample" by (intro nl_free_py_strip nl_free_flatten)
    then have "nl_free ?shown" by (simp add: nl_free_take)
    then have quote: "no_h2 ?quote" by (intro no_h2_lines) simp
    from s have "review_theme_block fb tc = ?head @ ?quote"
      by (simp add: review_theme_block_def Let_def)
    with head quote show ?thesis by (simp only: no_h2_append)
  qed
qed

lemma titled_review_focus:
  assumes "case review_themes (findings st) of None \<Rightarrow> True | Some themes \<Rightarrow> nl_free_keys themes"
  shows "titled (render_review_focus st)
           (if review_themes (findings st) = None \<or> review_themes (findings st) = Some []
            then [] else [''Code Review Focus Areas''])"
proof (cases "review_themes (findings st) = None \<or> review_themes (findings st) = Some []")
  case True
  then have "render_review_focus st = []" by (auto simp: render_review_focus_def)
  with True show ?thesis by (simp only: if_True titled_Nil)
next
  case False
  then obtain themes where th: "review_themes (findings st) = Some themes" "themes \<noteq> []" by auto
  let ?blocks = "concat (map (review_theme_block (feedback (findings st))) (take 5 themes))"
  let ?block = "concat (map (\<lambda>l. l @ ''\<newline>'') [[], ''Based on recurring themes in PR reviews:'', []])
                @ ?blocks"
  from th have form: "render_review_focus st = ''## '' @ ''Code Review Focus Areas'' @ ''\<newline>'' @ ?block"
    by (simp add: render_review_focus_def)
  from assms th have "nl_free_keys (take 5 themes)" by (simp add: nl_free_keys_take)
  then have "list_all (\<lambda>tc. no_h2 (review_theme_block (feedback (findings st)) tc)) (take 5 themes)"
    by (simp add: nl_free_keys_iff list_all_iff no_h2_review_theme_block)
  then have blocks: "no_h2 ?blocks" by (rule no_h2_concat)
  have intro: "no_h2 (concat (map (\<lambda>l. l @ ''\<newline>'') [[], ''Based on recurring themes in PR reviews:'', []]))"
    by (intro no_h2_lines) simp
  from intro blocks have block: "no_h2 ?block" by (rule no_h2_append)
  have "titled (''## '' @ ''Code Review Focus Areas'' @ ''\<newline>'' @ ?block) [''Code Review Focus Areas'']"
    by (rule titled_section [OF _ _ block]) simp_all
  with False show ?thesis by (simp only: form if_False)
qed

text \<open>Recent Evolution.\<close>

lemma nl_free_refactor_category: "nl_free (refactor_category msg)"
  by (simp add: refactor_category_def)

lemma dict_get_mem: "dict_get d k dflt = dflt \<or> (k, dict_get d k dflt) \<in> set d"
  by (cases "map_of d k") (auto simp: dict_get_def dest: map_of_SomeD)

lemma refactor_types_invariant:
  assumes "list_all nl_free msgs"
    and "list_all (\<lambda>cm. nl_free (fst cm) \<and> list_all nl_free (snd cm)) refactor_types"
  shows "list_all (\<lambda>cm. nl_free (fst cm) \<and> list_all nl_free (snd cm))
           (fold (\<lambda>msg refactor_types. dict_append refactor_types (refactor_category msg) msg)
              msgs refactor_types)"
  using assms
proof (induction msgs arbitrary: refactor_types)
  case Nil
  then show ?case by simp
next
  case (Cons msg msgs)
  let ?k = "refactor_category msg"
  from Cons.prems(2) dict_get_mem [of refactor_types ?k "[]"]
  have old: "list_all nl_free (dict_get refactor_types ?k [])"
    unfolding list_all_iff by fastforce
  from Cons.prems(1) have m: "nl_free msg" by simp
  have "set (dict_append refactor_types ?k msg)
      \<subseteq> insert (?k, dict_get refactor_types ?k [] @ [msg]) (set refactor_types)"
    unfolding dict_append_def by (rule set_dict_set)
  with Cons.prems(2) old m
  have "list_all (\<lambda>cm. nl_free (fst cm) \<and> list_all nl_free (snd cm)) (dict_append refactor_types ?k msg)"
    unfolding list_all_iff using nl_free_refactor_category [of msg] by fastforce
  with Cons.IH Cons.prems(1) show ?case by simp
qed

lemma no_h2_refactor_block:
  assumes "nl_free (fst cm)" and "list_all nl_free (snd cm)"
  shows "no_h2 (refactor_block cm)"
proof -
  let ?head = "(''**'' @ fst cm @ ''** ('' @ str_int (int (length (snd cm))) @ '' commits):'') @ ''\<newline>''"
  let ?msgs = "concat (map (\<lambda>msg. (''- '' @ msg) @ ''\<newline>'') (take 3 (snd cm)))"
  have form: "refactor_block cm = ?head @ ?msgs @ ''\<newline>''"
    by (simp add: refactor_block_def)
  have head: "no_h2 ?head"
    using assms(1) by (intro no_h2_line) (simp_all add: nl_free_str_int)
  from assms(2) have shown: "list_all nl_free (take 3 (snd cm))"
    unfolding list_all_iff by (auto dest: in_set_takeD)
  have "list_all (\<lambda>msg. no_h2 ((''- '' @ msg) @ ''\<newline>'')) (take 3 (snd cm))"
    unfolding list_all_iff
  proof
    fix msg
    assume "msg \<in> set (take 3 (snd cm))"
    with shown have "nl_free msg" by (simp add: list_all_iff)
    then show "no_h2 ((''- '' @ msg) @ ''\<newline>'')"
      by (intro no_h2_line) simp_all
  qed
  then have msgs: "no_h2 ?msgs" by (rule no_h2_concat)
  from msgs no_h2_blank have "no_h2 (?msgs @ ''\<newline>'')" by (rule no_h2_append)
  with head show ?thesis unfolding form by (rule no_h2_append)
qed

lemma titled_recent_evolution:
  assumes "case refactor_commits (findings st) of None \<Rightarrow> True | Some commits \<Rightarrow> list_all nl_free commits"
  shows "titled (render_recent_evolution st)
           (if refactor_commits (findings st) = None \<or> refactor_commits (findings st) = Some []
            then [] else [''Recent Evolution''])"
proof (cases "refactor_commits (findings st) = None \<or> refactor_commits (findings st) = Some []")
  case True
  then have "render_recent_evolution st = []" by (auto simp: render_recent_evolution_def)
  with True show ?thesis by (simp only: if_True titled_Nil)
next
  case False
  then obtain commits where c: "refactor_commits (findings st) = Some commits" "commits \<noteq> []" by auto
  let ?types = "fold (\<lambda>msg refactor_types. dict_append refactor_types (refactor_category msg) msg)
                  (take 10 commits) []"
  let ?blocks = "concat (map refactor_block ?types)"
  let ?block = "concat (map (\<lambda>l. l @ ''\<newline>'') [[], ''**Recent refactoring themes:**'', []]) @ ?blocks"
  from c have form: "render_recent_evolution st = ''## '' @ ''Recent Evolution'' @ ''\<newline>'' @ ?block"
    by (simp add: render_recent_evolution_def)
  from assms c have "list_all nl_free (take 10 commits)"
    unfolding list_all_iff by (auto dest: in_set_takeD)
  then have inv: "list_all (\<lambda>cm. nl_free (fst cm) \<and> list_all nl_free (snd cm)) ?types"
    by (rule refactor_types_invariant) simp
  have "list_all (\<lambda>cm. no_h2 (refactor_block cm)) ?types"
    unfolding list_all_iff
  proof
    fix cm
    assume "cm \<in> set ?types"
    with inv have "nl_free (fst cm) \<and> list_all nl_free (snd cm)"
      unfolding list_all_iff [of _ ?types] by blast
    then show "no_h2 (refactor_block cm)" by (intro no_h2_refactor_block) simp_all
  qed
  then have blocks: "no_h2 ?blocks" by (rule no_h2_concat)
  have intro: "no_h2 (concat (map (\<lambda>l. l @ ''\<newline>'') [[], ''**Recent refactoring themes:**'', []]))"
    by (intro no_h2_lines) simp
  from intro blocks have block: "no_h2 ?block" by (rule no_h2_append)
  have "titled (''## '' @ ''Recent Evolution'' @ ''\<newline>'' @ ?block) [''Recent Evolution'']"
    by (rule titled_section [OF _ _ block]) simp_all
  with False show ?thesis by (simp only: form if_False)
qed

text \<open>Recommendations.\<close>

lemma nl_free_recommendations: "list_all nl_free (generate_recommendations st)"
  by (simp add: generate_recommendations_def Let_def)

lemma no_h2_recommendation_lines:
  "list_all nl_free rs \<Longrightarrow> no_h2 (recommendation_lines i rs)"
proof (induction rs arbitrary: i)
  case Nil
  then show ?case by (simp add: no_h2_Nil)
next
  case (Cons r rs)
  from Cons.prems have r: "nl_free r" and rs: "list_all nl_free rs" by simp_all
  have "\<not> startswith (str_int i @ ''. '' @ r) ''## ''"
    by (rule str_int_not_heading)
  with r have line: "no_h2 ((str_int i @ ''. '' @ r) @ ''\<newline>'')"
    by (intro no_h2_line) (simp_all add: nl_free_str_int)
  from Cons.IH [OF rs] have "no_h2 (recommendation_lines (i + 1) rs)" .
  with line have "no_h2 (((str_int i @ ''. '' @ r) @ ''\<newline>'') @ recommendation_lines (i + 1) rs)"
    by (rule no_h2_append)
  then show ?case by simp
qed

lemma titled_recommendations:
  "titled (render_recommendations st)
     (if generate_recommendations st \<noteq> [] then [''Recommendations''] else [])"
proof (cases "generate_recommendations st \<noteq> []")
  case False
  then show ?thesis by (simp add: render_recommendations_def titled_Nil)
next
  case True
  let ?lines = "recommendation_lines 1 (generate_recommendations st)"
  let ?block = "concat (map (\<lambda>l. l @ ''\<newline>'') [[], ''Based on the analysis above:'', []])
                @ ?lines @ ''\<newline>''"
  from True have form: "render_recommendations st = ''## '' @ ''Recommendations'' @ ''\<newline>'' @ ?block"
    by (simp add: render_recommendations_def)
  have lines: "no_h2 ?lines"
    by (rule no_h2_recommendation_lines) (rule nl_free_recommendations)
  have intro: "no_h2 (concat (map (\<lambda>l. l @ ''\<newline>'') [[], ''Based on the analysis above:'', []]))"
    by (intro no_h2_lines) simp
  have block: "no_h2 ?block"
    by (intro no_h2_append intro lines no_h2_blank)
  have "titled (''## '' @ ''Recommendations'' @ ''\<newline>'' @ ?block) [''Recommendations'']"
    by (rule titled_section [OF _ _ block]) simp_all
  with True show ?thesis by (simp only: form if_True simp_thms)
qed

text \<open>The fixed texts.\<close>

lemma titled_code_examples: "titled code_examples [''Code Examples'']"
proof -
  let ?block = "concat (map (\<lambda>l. l @ ''\<newline>'')
     [[], ''> **Note:** Add specific code examples from recent merged PRs that demonstrate the recommended patterns.'', []])"
  have form: "code_examples = ''## '' @ ''Code Examples'' @ ''\<newline>'' @ ?block"
    by (simp add: code_examples_def)
  have block: "no_h2 ?block" by (intro no_h2_lines) simp
  show ?thesis unfolding form by (rule titled_section [OF _ _ block]) simp_all
qed

lemma titled_first_version: "titled first_version [''Changes from Previous Guidelines'']"
proof -
  let ?block = "concat (map (\<lambda>l. l @ ''\<newline>'')
     [[], ''*This is the first version of guidelines for this area.*'', []])"
  have form: "first_version = ''## '' @ ''Changes from Previous Guidelines'' @ ''\<newline>'' @ ?block"
    by (simp add: first_version_def)
  have block: "no_h2 ?block" by (intro no_h2_lines) simp
  show ?thesis unfolding form by (rule titled_section [OF _ _ block]) simp_all
qed

lemma no_h2_trailer: "no_h2 trailer"
proof -
  have form: "trailer = concat (map (\<lambda>l. l @ ''\<newline>'')
     [''---'', [],
      ''*These guidelines are automatically generated based on actual codebase patterns. ''
      @ ''Review and enhance with code examples and project-specific context.*''])"
    by (simp add: trailer_def)
  show ?thesis unfolding form by (intro no_h2_lines) simp
qed

lemma titled_guidelines_body:
  assumes st: "single_line_state st" and now: "nl_free (now_guidelines env)"
    and body: "guidelines_body env st = Inr guidelines"
  shows "titled (guidelines @ first_version)  (expected_sections st)"
proof -
  from render_file_organization_total obtain fo
    where fo: "render_file_organization st = Inr fo" by blast
  from render_naming_total obtain nm
    where nm: "render_naming st = Inr nm" by blast
  from body fo nm have form: "guidelines = render_header (now_guidelines env) st @ render_tech_focus st
      @ fo @ nm @ render_review_focus st @ render_recent_evolution st @ render_recommendations st
      @ code_examples"
    by (simp add: guidelines_body_def)
  from st have parts:
    "nl_free (area st)" "nl_free_keys (metrics st)"
    "case file_types (findings st) of None \<Rightarrow> True | Some ft \<Rightarrow> nl_free_keys ft"
    "case naming_conventions (findings st) of None \<Rightarrow> True | Some nc \<Rightarrow> nl_free_keys nc"
    "case review_themes (findings st) of None \<Rightarrow> True | Some themes \<Rightarrow> nl_free_keys themes"
    "case refactor_commits (findings st) of None \<Rightarrow> True | Some commits \<Rightarrow> list_all nl_free commits"
    by (simp_all add: single_line_state_def)
  note t1 = titled_header [OF parts(1) now]
  note t2 = titled_tech_focus [OF parts(2)]
  note t3 = titled_file_organization [OF parts(3) fo]
  note t4 = titled_naming [OF parts(4) nm]
  note t5 = titled_review_focus [OF parts(5)]
  note t6 = titled_recent_evolution [OF parts(6)]
  note t7 = titled_recommendations [of st]
  note t8 = titled_code_examples
  note t9 = titled_first_version
  note all = titled_append [OF t1 titled_append [OF t2 titled_append [OF t3 titled_append [OF t4
    titled_append [OF t5 titled_append [OF t6 titled_append [OF t7 titled_append [OF t8 t9]]]]]]]]
  have "guidelines @ first_version = render_header (now_guidelines env) st @ render_tech_focus st
      @ fo @ nm @ render_review_focus st @ render_recent_evolution st @ render_recommendations st
      @ code_examples @ first_version"
    by (simp only: form append_assoc)
  moreover have "expected_sections st = [''Analysis Summary'']
     @ (if tech_metrics (metrics st) \<noteq> [] then [''Technology Focus''] else [])
     @ (if file_types (findings st) = None \<or> file_types (findings st) = Some [] then []
        else [''File Organization''])
     @ (if naming_conventions (findings st) = None \<or> naming_conventions (findings st) = Some [] then []
        else [''Naming Conventions''])
     @ (if review_themes (findings st) = None \<or> review_themes (findings st) = Some [] then []
        else [''Code Review Focus Areas''])
     @ (if refactor_commits (findings st) = None \<or> refactor_commits (findings st) = Some [] then []
        else [''Recent Evolution''])
     @ (if generate_recommendations st \<noteq> [] then [''Recommendations''] else [])
     @ [''Code Examples''] @ [''Changes from Previous Guidelines'']"
    by (simp only: expected_sections_def append_Cons append_Nil)
  ultimately show ?thesis using all by (simp only:)
qed

lemma generate_returns_first_version:
  assumes "generate_updated_guidelines frames env fs st = Inr doc"
  shows "\<exists>guidelines. guidelines_body env st = Inr guidelines \<and> doc = guidelines @ first_version @ trailer"
proof (cases frames)
  case 0
  with assms show ?thesis by simp
next
  case (Suc n)
  from guidelines_body_total obtain guidelines where body: "guidelines_body env st = Inr guidelines"
    by blast
  show ?thesis
  proof (cases "load_current_guidelines fs st = None \<or> load_current_guidelines fs st = Some []")
    case True
    from generate_first_version [OF True body, of n] assms Suc body show ?thesis by simp
  next
    case False
    then obtain current where "load_current_guidelines fs st = Some current" "current \<noteq> []"
      by (cases "load_current_guidelines fs st") auto
    from generate_and_compare_fail [OF this, of frames env] assms show ?thesis by simp
  qed
qed

lemma guidelines_sections:
  assumes st: "single_line_state st" and now: "nl_free (now_guidelines env)"
    and gen: "generate_updated_guidelines frames env fs st = Inr doc"
  shows "h2_titles doc = expected_sections st"
proof -
  from generate_returns_first_version [OF gen] obtain guidelines
    where body: "guidelines_body env st = Inr guidelines"
      and doc: "doc = guidelines @ first_version @ trailer" by blast
  from titled_guidelines_body [OF st now body]
  have "titled (guidelines @ first_version) (expected_sections st)" .
  from titled_append [OF this titled_no_h2 [OF no_h2_trailer]]
  have "titled ((guidelines @ first_version) @ trailer) (expected_sections st)" by simp
  then show ?thesis by (simp add: doc titled_def)
qed
























subsection \<open>A run without the review tool\<close>
















subsection \<open>The header of the document\<close>





end
